theory Spec2Isabelle
  imports Main "HOL-Library.Word"
begin

unbundle bit_operations_syntax

section \<open>Snapshots of the timed B-tree (pkg/tbtree/snapshot.go)\<close>

text \<open>
  The development follows the second variant of \<^verbatim>\<open>snapshot.go\<close>: the one whose
  \<^verbatim>\<open>writeTo\<close> methods take a \<^verbatim>\<open>WriteOpts\<close> and return the offset and the number of
  bytes written.  Go's \<^verbatim>\<open>int\<close> and \<^verbatim>\<open>int64\<close> are 64-bit words read as two's
  complement (\<open>sint\<close>, \<open><s\<close>), \<^verbatim>\<open>uint64\<close> and \<^verbatim>\<open>uint32\<close> are words read unsigned, a
  \<^verbatim>\<open>[]byte\<close> is a list of 8-bit words.
\<close>

subsection \<open>Basic types\<close>

type_synonym byte = "8 word"
type_synonym bytes = "byte list"
type_synonym uint32 = "32 word"
type_synonym uint64 = "64 word"
type_synonym int64 = "64 word"

text \<open>
  The sentinel errors of the package.  \<open>ErrIO\<close> stands for any error of a collaborator
  (the sink, the node store, the owning tree); \<open>PanicOutOfRange\<close> is the run-time panic
  of a slice access outside the buffer.
\<close>

datatype error =
    ErrAlreadyClosed
  | ErrReadersNotClosed
  | ErrIllegalArgument
  | ErrKeyNotFound
  | ErrNoMoreEntries
  | ErrIO string
  | PanicOutOfRange

text \<open>The node type tags: \<^verbatim>\<open>const ( InnerNodeType = iota; ... )\<close>.\<close>

definition InnerNodeType :: byte where "InnerNodeType = 0"
definition RootInnerNodeType :: byte where "RootInnerNodeType = 1"
definition LeafNodeType :: byte where "LeafNodeType = 2"
definition RootLeafNodeType :: byte where "RootLeafNodeType = 3"

subsection \<open>Nodes\<close>

text \<open>
  Modelled from the spec: the declarations of \<^verbatim>\<open>innerNode\<close>, \<^verbatim>\<open>leafNode\<close>, \<^verbatim>\<open>nodeRef\<close> and
  of the \<^verbatim>\<open>node\<close> interface are not part of \<^verbatim>\<open>snapshot.go\<close>.  The spec gives every node
  the observable properties \<^verbatim>\<open>maxKey\<close>, \<^verbatim>\<open>ts\<close>, \<^verbatim>\<open>size\<close>, \<^verbatim>\<open>offset\<close> and \<^verbatim>\<open>mutated\<close>; they
  are held here as fields, so that every theorem holds whatever the accessor methods
  \<^verbatim>\<open>maxKey()\<close>, \<^verbatim>\<open>ts()\<close>, \<^verbatim>\<open>size()\<close> and \<^verbatim>\<open>mutated()\<close> compute.  \<open>off\<close> is the field
  \<^verbatim>\<open>off\<close> that \<^verbatim>\<open>snapshot.go\<close> reads and assigns, and \<^verbatim>\<open>offset()\<close> returns it.
\<close>

record props =
  maxKey :: bytes
  ts :: uint64
  size :: int64
  off :: int64
  mut :: bool

text \<open>A leaf entry: \<^verbatim>\<open>v.key\<close>, \<^verbatim>\<open>v.value\<close>, \<^verbatim>\<open>v.ts\<close>, \<^verbatim>\<open>v.prevTs\<close>.\<close>

record leafValue =
  key :: bytes
  val :: bytes
  vts :: uint64
  prevTs :: uint64

text \<open>
  Modelled from the spec: \<^verbatim>\<open>nodeRef.resolve()\<close> and the struct declarations are not
  part of \<^verbatim>\<open>snapshot.go\<close>.  An inner node has its children \<^verbatim>\<open>n.nodes\<close>, a leaf its
  entries \<^verbatim>\<open>l.values\<close>, a node reference the field \<^verbatim>\<open>n.node\<close> (the in-memory node,
  \<open>None\<close> for \<^verbatim>\<open>nil\<close>): these are the fields that \<^verbatim>\<open>snapshot.go\<close> reads.  The spec says
  that resolving a reference asks the node store for the node at the reference's
  offset, and that the store may fail.  The last field of \<open>NodeRef\<close> is the answer of
  the node store for this reference, an error or a node; a node that the store yields
  is held there and not shared with \<^verbatim>\<open>n.node\<close>.
\<close>

datatype node =
    InnerNode props "node list"
  | LeafNode props "leafValue list"
  | NodeRef props "node option" "error + node"

fun props_of :: "node \<Rightarrow> props" where
  "props_of (InnerNode p cs) = p"
| "props_of (LeafNode p vs) = p"
| "props_of (NodeRef p nd res) = p"

text \<open>
  Modelled from the spec: the methods \<^verbatim>\<open>offset()\<close> and \<^verbatim>\<open>mutated()\<close> of the \<^verbatim>\<open>node\<close>
  interface are not part of \<^verbatim>\<open>snapshot.go\<close>.  \<^verbatim>\<open>offset()\<close> is the on-disk position of
  the node, the field \<^verbatim>\<open>off\<close>; \<^verbatim>\<open>mutated()\<close> says whether the node was created or
  changed since it was last persisted.
\<close>

definition offset :: "node \<Rightarrow> int64" where
  "offset n = off (props_of n)"

definition mutated :: "node \<Rightarrow> bool" where
  "mutated n = mut (props_of n)"

subsection \<open>Readers and snapshots\<close>

record readerSpec =
  initialKey :: bytes
  isPrefix :: bool
  ascOrder :: bool

text \<open>
  The \<^verbatim>\<open>Reader\<close> struct as \<^verbatim>\<open>Snapshot.Reader\<close> fills it.  The back pointer
  \<^verbatim>\<open>snapshot\<close> is left out: a reader is always used together with its snapshot.
\<close>

record reader =
  rid :: int64
  rinitialKey :: bytes
  risPrefix :: bool
  rascOrder :: bool
  rpath :: "node list"
  rleafNode :: node
  roffset :: int64
  rclosed :: bool

text \<open>
  The \<^verbatim>\<open>Snapshot\<close> struct.  The registry \<^verbatim>\<open>readers map[int]*Reader\<close> is an association
  list with one pair for each key; the owning tree \<^verbatim>\<open>t\<close> is passed to \<^verbatim>\<open>Close\<close>.
\<close>

record snapshot =
  sid :: uint64
  root :: node
  readers :: "(int64 \<times> reader) list"
  maxReaderID :: int64
  closed :: bool

text \<open>
  \<^verbatim>\<open>s.readers[k] = r\<close> and \<^verbatim>\<open>delete(s.readers, k)\<close> on the association list.
\<close>

fun map_store :: "int64 \<Rightarrow> reader \<Rightarrow> (int64 \<times> reader) list \<Rightarrow> (int64 \<times> reader) list" where
  "map_store k r [] = [(k, r)]"
| "map_store k r ((k', r') # m) = (if k = k' then (k, r) # m else (k', r') # map_store k r m)"

fun map_delete :: "int64 \<Rightarrow> (int64 \<times> reader) list \<Rightarrow> (int64 \<times> reader) list" where
  "map_delete k [] = []"
| "map_delete k ((k', r') # m) = (if k = k' then map_delete k m else (k', r') # map_delete k m)"

text \<open>
  \<^verbatim>\<open>Snapshot.Get\<close>.  The method \<^verbatim>\<open>get\<close> of the root node is declared outside
  \<^verbatim>\<open>snapshot.go\<close> and is a parameter.
\<close>

definition Get ::
  "(node \<Rightarrow> bytes \<Rightarrow> bytes option \<times> uint64 \<times> error option) \<Rightarrow> snapshot \<Rightarrow> bytes
     \<Rightarrow> bytes option \<times> uint64 \<times> error option" where
  "Get get s k = (if closed s then (None, 0, Some ErrAlreadyClosed) else get (root s) k)"

text \<open>\<^verbatim>\<open>Snapshot.Ts\<close>.\<close>

definition Ts :: "snapshot \<Rightarrow> uint64 \<times> error option" where
  "Ts s = (if closed s then (0, Some ErrAlreadyClosed) else (ts (props_of (root s)), None))"

text \<open>
  \<^verbatim>\<open>Snapshot.Reader\<close>.  The descent \<^verbatim>\<open>findLeafNode\<close> is declared outside \<^verbatim>\<open>snapshot.go\<close>
  and is a parameter: it returns the path, the starting leaf, the starting offset and
  an error.  A \<^verbatim>\<open>nil\<close> spec is \<open>None\<close>.  The result is the returned pair and the
  snapshot after the call.
\<close>

definition Reader ::
  "(node \<Rightarrow> bytes \<Rightarrow> bool \<Rightarrow> node list \<times> node \<times> int64 \<times> error option) \<Rightarrow> snapshot
     \<Rightarrow> readerSpec option \<Rightarrow> (reader option \<times> error option) \<times> snapshot" where
  "Reader findLeafNode s spec =
     (if closed s then ((None, Some ErrAlreadyClosed), s)
      else case spec of
        None \<Rightarrow> ((None, Some ErrIllegalArgument), s)
      | Some sp \<Rightarrow>
          (case findLeafNode (root s) (initialKey sp) (ascOrder sp) of
             (path, startingLeaf, startingOffset, err) \<Rightarrow>
               if err = Some ErrKeyNotFound then ((None, Some ErrNoMoreEntries), s)
               else if err \<noteq> None then ((None, err), s)
               else
                 let r = \<lparr> rid = maxReaderID s,
                           rinitialKey = initialKey sp,
                           risPrefix = isPrefix sp,
                           rascOrder = ascOrder sp,
                           rpath = path,
                           rleafNode = startingLeaf,
                           roffset = startingOffset,
                           rclosed = False \<rparr>
                 in ((Some r, None),
                     s\<lparr> readers := map_store (rid r) r (readers s),
                        maxReaderID := maxReaderID s + 1 \<rparr>)))"

text \<open>\<^verbatim>\<open>Snapshot.closedReader\<close>.\<close>

definition closedReader :: "snapshot \<Rightarrow> reader \<Rightarrow> error option \<times> snapshot" where
  "closedReader s r =
     (if closed s then (Some ErrAlreadyClosed, s)
      else (None, s\<lparr> readers := map_delete (rid r) (readers s) \<rparr>))"

text \<open>
  \<^verbatim>\<open>Snapshot.Close\<close>.  The owning tree is a state \<open>'t\<close> and its method
  \<^verbatim>\<open>snapshotClosed\<close>, declared outside \<^verbatim>\<open>snapshot.go\<close>, a parameter that returns an error
  or \<open>None\<close> and the tree after the call.
\<close>

definition Close ::
  "('t \<Rightarrow> snapshot \<Rightarrow> error option \<times> 't) \<Rightarrow> 't \<Rightarrow> snapshot \<Rightarrow> error option \<times> snapshot \<times> 't" where
  "Close snapshotClosed t s =
     (if closed s then (Some ErrAlreadyClosed, s, t)
      else if length (readers s) > 0 then (Some ErrReadersNotClosed, s, t)
      else case snapshotClosed t s of
        (Some e, t') \<Rightarrow> (Some e, s, t')
      | (None, t') \<Rightarrow> (None, s\<lparr> closed := True \<rparr>, t'))"

text \<open>Closing the readers of a list one after the other, stopping at the first error.\<close>

fun closeReaders :: "snapshot \<Rightarrow> reader list \<Rightarrow> error option \<times> snapshot" where
  "closeReaders s [] = (None, s)"
| "closeReaders s (r # rs) =
     (case closedReader s r of
        (Some e, s') \<Rightarrow> (Some e, s')
      | (None, s') \<Rightarrow> closeReaders s' rs)"

subsection \<open>Big-endian fields\<close>

text \<open>\<^verbatim>\<open>binary.BigEndian.PutUint32\<close> and \<^verbatim>\<open>binary.BigEndian.PutUint64\<close>.\<close>

definition be32 :: "uint32 \<Rightarrow> bytes" where
  "be32 v = [ucast (drop_bit 24 v), ucast (drop_bit 16 v), ucast (drop_bit 8 v), ucast v]"

definition be64 :: "uint64 \<Rightarrow> bytes" where
  "be64 v = [ucast (drop_bit 56 v), ucast (drop_bit 48 v), ucast (drop_bit 40 v),
             ucast (drop_bit 32 v), ucast (drop_bit 24 v), ucast (drop_bit 16 v),
             ucast (drop_bit 8 v), ucast v]"

subsection \<open>The sink\<close>

text \<open>
  An \<^verbatim>\<open>io.Writer\<close>.  A sink holds the bytes it has taken and a script of its answers to
  the coming calls of \<^verbatim>\<open>Write\<close>: \<open>Resp k err\<close> takes at most \<open>k\<close> bytes of the buffer
  offered and returns \<open>err\<close>.  When the script is used up the sink takes every buffer
  whole and returns no error, as a \<^verbatim>\<open>bytes.Buffer\<close> does.
\<close>

datatype response = Resp nat "error option"

record sink =
  written :: bytes
  script :: "response list"

definition Write :: "sink \<Rightarrow> bytes \<Rightarrow> nat \<times> error option \<times> sink" where
  "Write w p =
     (case script w of
        [] \<Rightarrow> (length p, None, w\<lparr> written := written w @ p \<rparr>)
      | Resp k err # rs \<Rightarrow>
          (min k (length p), err,
           w\<lparr> written := written w @ take (min k (length p)) p, script := rs \<rparr>))"

subsection \<open>The byte-write helper\<close>

text \<open>
  The function \<^verbatim>\<open>writeTo(buf, w)\<close>.  Its loop has no bound, so the model is a partial
  function: \<open>None\<close> says that the loop does not return.  Every turn offers the whole
  of \<open>buf\<close> to the sink again, as the source does (\<^verbatim>\<open>w.Write(buf)\<close>), and \<open>wn\<close> is a
  Go \<^verbatim>\<open>int\<close>.
\<close>

partial_function (option) writeTo_loop :: "bytes \<Rightarrow> int64 \<Rightarrow> sink \<Rightarrow> (error option \<times> sink) option" where
  "writeTo_loop buf wn w =
     (case Write w buf of
        (n, err, w') \<Rightarrow>
          if err \<noteq> None then Some (err, w')
          else if (word_of_nat (length buf) :: int64) = wn + word_of_nat n then Some (None, w')
          else writeTo_loop buf (wn + word_of_nat n) w')"

declare writeTo_loop.simps [code]

definition writeTo :: "bytes \<Rightarrow> sink \<Rightarrow> (error option \<times> sink) option" where
  "writeTo buf w = writeTo_loop buf 0 w"

subsection \<open>Serialization of nodes\<close>

record writeOpts =
  OnlyMutated :: bool
  BaseOffset :: int64
  CommitLog :: bool

text \<open>
  What a serialization acts on: the sink, and the number of times the node store has
  been asked for a node.
\<close>

record env =
  out :: sink
  lookups :: nat

text \<open>
  The record of one leaf entry, as the loop over \<^verbatim>\<open>l.values\<close> writes it.
\<close>

definition entry_bytes :: "leafValue \<Rightarrow> bytes" where
  "entry_bytes v =
     be32 (word_of_nat (length (key v))) @ key v @
     be32 (word_of_nat (length (val v))) @ val v @
     be64 (vts v) @ be64 (prevTs v)"

text \<open>\<^verbatim>\<open>writeNodeRefTo\<close>: the bytes written for one child (their number is the result).\<close>

definition writeNodeRefTo :: "node \<Rightarrow> bytes" where
  "writeNodeRefTo n =
     be32 (word_of_nat (length (maxKey (props_of n)))) @ maxKey (props_of n) @
     be64 (ts (props_of n)) @
     be32 (ucast (size (props_of n))) @
     be64 (offset n)"

text \<open>
  The bytes \<^verbatim>\<open>buf[:i]\<close> that \<^verbatim>\<open>leafNode.writeTo\<close> and \<^verbatim>\<open>innerNode.writeTo\<close> hand to the
  helper.  The source fills a zeroed buffer of \<^verbatim>\<open>size+4\<close> bytes from left to right at
  the index \<^verbatim>\<open>i\<close>, which only grows; \<open>fits\<close> says that \<^verbatim>\<open>make\<close> and every write stay
  inside the buffer, which is the case exactly when the last index is at most
  \<^verbatim>\<open>size+4\<close> (a \<^verbatim>\<open>copy\<close> that is cut short is always followed by a \<^verbatim>\<open>PutUint\<close> that
  panics).
\<close>

definition leafNode_buf :: "bool \<Rightarrow> props \<Rightarrow> leafValue list \<Rightarrow> bytes" where
  "leafNode_buf asRoot p vs =
     (if asRoot then RootLeafNodeType else LeafNodeType) #
     be32 (ucast (size p)) @
     be32 (word_of_nat (length vs)) @
     concat (map entry_bytes vs) @
     (if asRoot then be32 (ucast (size p)) else [])"

definition innerNode_buf :: "bool \<Rightarrow> props \<Rightarrow> node list \<Rightarrow> bytes" where
  "innerNode_buf asRoot p cs =
     (if asRoot then RootInnerNodeType else InnerNodeType) #
     be32 (ucast (size p)) @
     be32 (word_of_nat (length cs)) @
     concat (map writeNodeRefTo cs) @
     (if asRoot then be32 (ucast (size p)) else [])"

definition fits :: "int64 \<Rightarrow> bytes \<Rightarrow> bool" where
  "fits sz buf = (0 \<le> sint (sz + 4) \<and> int (length buf) \<le> sint (sz + 4))"

text \<open>
  The result of a \<^verbatim>\<open>writeTo\<close> method: the node after the call, the sink and the node
  store counter after the call, and the returned \<^verbatim>\<open>(off, tw, err)\<close>.  A panic is the
  error \<open>PanicOutOfRange\<close>; \<open>None\<close> says that the helper's loop does not return.
\<close>

type_synonym result = "node \<times> env \<times> int64 \<times> int64 \<times> error option"

text \<open>\<^verbatim>\<open>leafNode.writeTo\<close>.\<close>

definition leafNode_writeTo ::
  "env \<Rightarrow> bool \<Rightarrow> writeOpts \<Rightarrow> props \<Rightarrow> leafValue list \<Rightarrow> result option" where
  "leafNode_writeTo st asRoot opts p vs =
     (if OnlyMutated opts \<and> 0 <s off p then Some (LeafNode p vs, st, off p, 0, None)
      else if \<not> fits (size p) (leafNode_buf asRoot p vs)
        then Some (LeafNode p vs, st, 0, 0, Some PanicOutOfRange)
      else case writeTo (leafNode_buf asRoot p vs) (out st) of
        None \<Rightarrow> None
      | Some (Some e, w') \<Rightarrow> Some (LeafNode p vs, st\<lparr> out := w' \<rparr>, 0, 0, Some e)
      | Some (None, w') \<Rightarrow>
          Some (LeafNode (if CommitLog opts then p\<lparr> off := BaseOffset opts \<rparr> else p) vs,
                st\<lparr> out := w' \<rparr>,
                BaseOffset opts,
                (if asRoot then size p + 4 else size p),
                None))"

text \<open>
  The last part of \<^verbatim>\<open>innerNode.writeTo\<close>, after the loop over the children: \<open>cs\<close> are
  the children after the loop and \<open>cw\<close> the bytes counted for them.
\<close>

definition innerNode_finish ::
  "env \<Rightarrow> bool \<Rightarrow> writeOpts \<Rightarrow> props \<Rightarrow> node list \<Rightarrow> int64 \<Rightarrow> result option" where
  "innerNode_finish st asRoot opts p cs cw =
     (if \<not> fits (size p) (innerNode_buf asRoot p cs)
        then Some (InnerNode p cs, st, 0, 0, Some PanicOutOfRange)
      else case writeTo (innerNode_buf asRoot p cs) (out st) of
        None \<Rightarrow> None
      | Some (Some e, w') \<Rightarrow> Some (InnerNode p cs, st\<lparr> out := w' \<rparr>, 0, 0, Some e)
      | Some (None, w') \<Rightarrow>
          Some (InnerNode (if CommitLog opts then p\<lparr> off := BaseOffset opts + cw \<rparr> else p) cs,
                st\<lparr> out := w' \<rparr>,
                BaseOffset opts + cw,
                (if asRoot then cw + size p + 4 else cw + size p),
                None))"

text \<open>
  The method \<^verbatim>\<open>writeTo\<close> of the three kinds of node, and the loop of
  \<^verbatim>\<open>innerNode.writeTo\<close> over the children (\<open>children_writeTo\<close>, with the bytes \<open>cw\<close>
  counted so far).  The slice \<^verbatim>\<open>offsets\<close> of the source is assigned and never read,
  so it is not part of the model.
\<close>

fun node_writeTo :: "env \<Rightarrow> bool \<Rightarrow> writeOpts \<Rightarrow> node \<Rightarrow> result option"
  and children_writeTo ::
    "env \<Rightarrow> writeOpts \<Rightarrow> int64 \<Rightarrow> node list \<Rightarrow> (node list \<times> env \<times> int64 \<times> error option) option"
where
  "node_writeTo st asRoot opts (LeafNode p vs) = leafNode_writeTo st asRoot opts p vs"
| "node_writeTo st asRoot opts (InnerNode p cs) =
     (if OnlyMutated opts \<and> 0 <s off p then Some (InnerNode p cs, st, off p, 0, None)
      else case children_writeTo st opts 0 cs of
        None \<Rightarrow> None
      | Some (cs', st', cw, Some e) \<Rightarrow> Some (InnerNode p cs', st', 0, 0, Some e)
      | Some (cs', st', cw, None) \<Rightarrow> innerNode_finish st' asRoot opts p cs' cw)"
| "node_writeTo st asRoot opts (NodeRef p nd res) =
     (if OnlyMutated opts \<and> (case nd of None \<Rightarrow> True | Some m \<Rightarrow> 0 <s offset m)
        then Some (NodeRef p nd res, st, off p, 0, None)
      else case res of
        Inl e \<Rightarrow> Some (NodeRef p nd res, st\<lparr> lookups := lookups st + 1 \<rparr>, 0, 0, Some e)
      | Inr m \<Rightarrow>
          (case node_writeTo (st\<lparr> lookups := lookups st + 1 \<rparr>) asRoot opts m of
             None \<Rightarrow> None
           | Some (m', st', r) \<Rightarrow> Some (NodeRef p nd (Inr m'), st', r)))"
| "children_writeTo st opts cw [] = Some ([], st, cw, None)"
| "children_writeTo st opts cw (c # cs) =
     (if OnlyMutated opts \<and> \<not> mutated c
        then (case children_writeTo st opts cw cs of
                None \<Rightarrow> None
              | Some (cs', r) \<Rightarrow> Some (c # cs', r))
      else case node_writeTo st False (opts\<lparr> BaseOffset := BaseOffset opts + cw \<rparr>) c of
        None \<Rightarrow> None
      | Some (c', st', off', w, Some e) \<Rightarrow> Some (c' # cs, st', cw, Some e)
      | Some (c', st', off', w, None) \<Rightarrow>
          (case children_writeTo st' opts (cw + w) cs of
             None \<Rightarrow> None
           | Some (cs', r) \<Rightarrow> Some (c' # cs', r)))"

text \<open>
  \<^verbatim>\<open>Snapshot.WriteTo\<close>: the returned \<^verbatim>\<open>(n, err)\<close>, with the snapshot and the
  sink after the call.
\<close>

definition WriteTo :: "env \<Rightarrow> writeOpts \<Rightarrow> snapshot \<Rightarrow> ((int64 \<times> error option) \<times> snapshot \<times> env) option" where
  "WriteTo st opts s =
     (case node_writeTo st True opts (root s) of
        None \<Rightarrow> None
      | Some (r', st', off', n, err) \<Rightarrow> Some ((n, err), s\<lparr> root := r' \<rparr>, st'))"

subsection \<open>Values used in the examples\<close>

text \<open>
  A leaf with the one entry \<open>k \<mapsto> v\<close> (26 bytes), so a record of 35 bytes, and an
  empty leaf with a record of 9 bytes; neither has been persisted.
\<close>

definition propsK :: props where
  "propsK = \<lparr> maxKey = [107], ts = 1, size = 35, off = 0, mut = True \<rparr>"

definition valuesK :: "leafValue list" where
  "valuesK = [\<lparr> key = [107], val = [118], vts = 1, prevTs = 0 \<rparr>]"

definition leafK :: node where
  "leafK = LeafNode propsK valuesK"

definition leafE :: node where
  "leafE = LeafNode \<lparr> maxKey = [], ts = 0, size = 9, off = 0, mut = True \<rparr> []"

text \<open>A sink that has taken nothing and takes every write whole; nothing resolved yet.\<close>

definition env0 :: env where
  "env0 = \<lparr> out = \<lparr> written = [], script = [] \<rparr>, lookups = 0 \<rparr>"

text \<open>An open snapshot with no reader, and the reader that \<^verbatim>\<open>Reader\<close> makes first.\<close>

definition snap0 :: snapshot where
  "snap0 = \<lparr> sid = 1, root = leafK, readers = [], maxReaderID = 0, closed = False \<rparr>"

definition reader0 :: reader where
  "reader0 = \<lparr> rid = 0, rinitialKey = [107], risPrefix = False, rascOrder = True,
               rpath = [], rleafNode = leafK, roffset = 0, rclosed = False \<rparr>"

text \<open>
  Two owning trees: one counts the calls of \<^verbatim>\<open>snapshotClosed\<close> and never fails, the
  other counts them and always fails.
\<close>

definition tree_ok :: "nat \<Rightarrow> snapshot \<Rightarrow> error option \<times> nat" where
  "tree_ok n s = (None, Suc n)"

definition tree_failing :: "nat \<Rightarrow> snapshot \<Rightarrow> error option \<times> nat" where
  "tree_failing n s = (Some (ErrIO ''tree''), Suc n)"

text \<open>The largest Go \<^verbatim>\<open>int\<close>, \<open>2\<^sup>6\<^sup>3 - 1\<close>.\<close>

definition maxInt :: int64 where
  "maxInt = 9223372036854775807"

text \<open>
  Two descents for \<^verbatim>\<open>findLeafNode\<close>: one finds the node itself at offset 0, the other
  finds no starting position.
\<close>

definition find_ok :: "node \<Rightarrow> bytes \<Rightarrow> bool \<Rightarrow> node list \<times> node \<times> int64 \<times> error option" where
  "find_ok n k asc = ([], n, 0, None)"

definition find_none :: "node \<Rightarrow> bytes \<Rightarrow> bool \<Rightarrow> node list \<times> node \<times> int64 \<times> error option" where
  "find_none n k asc = ([], n, 0, Some ErrKeyNotFound)"

definition spec0 :: readerSpec where
  "spec0 = \<lparr> initialKey = [107], isPrefix = False, ascOrder = True \<rparr>"

text \<open>
  An inner node over the leaf \<open>leafK\<close> (a record of 34 bytes), and an inner node over
  a reference that is not resolved and that the node store cannot read.
\<close>

definition propsI :: props where
  "propsI = \<lparr> maxKey = [107], ts = 1, size = 34, off = 0, mut = True \<rparr>"

definition innerK :: node where
  "innerK = InnerNode propsI [leafK]"




definition refLazy :: node where
  "refLazy = NodeRef \<lparr> maxKey = [107], ts = 1, size = 35, off = 64, mut = False \<rparr>
               None (Inr leafK)"

subsection \<open>Measures used in the proofs\<close>

text \<open>
  \<open>erase\<close> sets every \<^verbatim>\<open>off\<close> field of a node graph to 0: two graphs with the same
  \<open>erase\<close> differ in their offsets only.
\<close>

fun erase :: "node \<Rightarrow> node" where
  "erase (InnerNode p cs) = InnerNode (p\<lparr> off := 0 \<rparr>) (map erase cs)"
| "erase (LeafNode p vs) = LeafNode (p\<lparr> off := 0 \<rparr>) vs"
| "erase (NodeRef p nd res) =
     NodeRef (p\<lparr> off := 0 \<rparr>)
       (case nd of None \<Rightarrow> None | Some m \<Rightarrow> Some (erase m))
       (case res of Inl e \<Rightarrow> Inl e | Inr m \<Rightarrow> Inr (erase m))"

text \<open>
  The number of bytes of the records that \<^verbatim>\<open>writeTo\<close> builds for a node graph, for
  \<^verbatim>\<open>OnlyMutated\<close> \<open>om\<close>: a node that is skipped counts 0, and so does a reference that
  the node store cannot read.
\<close>

fun emitted :: "bool \<Rightarrow> bool \<Rightarrow> node \<Rightarrow> nat"
  and emitted_children :: "bool \<Rightarrow> node list \<Rightarrow> nat"
where
  "emitted om asRoot (LeafNode p vs) =
     (if om \<and> 0 <s off p then 0 else length (leafNode_buf asRoot p vs))"
| "emitted om asRoot (InnerNode p cs) =
     (if om \<and> 0 <s off p then 0
      else emitted_children om cs + length (innerNode_buf asRoot p cs))"
| "emitted om asRoot (NodeRef p nd res) =
     (if om \<and> (case nd of None \<Rightarrow> True | Some m \<Rightarrow> 0 <s offset m) then 0
      else case res of Inl e \<Rightarrow> 0 | Inr m \<Rightarrow> emitted om asRoot m)"
| "emitted_children om [] = 0"
| "emitted_children om (c # cs) =
     (if om \<and> \<not> mutated c then 0 else emitted om False c) + emitted_children om cs"



section \<open>Properties\<close>

subsection \<open>The byte-write helper\<close>

lemma writeTo_whole:
  "script w = [] \<Longrightarrow> writeTo buf w = Some (None, w\<lparr> written := written w @ buf \<rparr>)"
  unfolding writeTo_def by (subst writeTo_loop.simps) (simp add: Write_def)

lemma writeTo_first_error:
  "script w = Resp k (Some e) # rs \<Longrightarrow>
   writeTo buf w =
     Some (Some e, w\<lparr> written := written w @ take (min k (length buf)) buf, script := rs \<rparr>)"
  unfolding writeTo_def by (subst writeTo_loop.simps) (simp add: Write_def)

text \<open>
  The loop need not return.  Once the sink has taken an odd number of bytes of a
  two-byte buffer and then takes every write whole, \<open>wn\<close> stays odd and never equals
  the length.
\<close>

lemma writeTo_loop_odd_never:
  assumes run: "writeTo_loop buf wn w = Some y"
  shows "\<not> (length buf = 2 \<and> odd wn \<and> script w = [])"
  apply (rule writeTo_loop.raw_induct
      [where P = "\<lambda>buf wn w y. \<not> (length buf = 2 \<and> odd wn \<and> script w = [])", OF _ run])
  subgoal premises prems for loop buf wn w y
  proof
    assume inv: "length buf = 2 \<and> odd wn \<and> script w = []"
    then have wr: "Write w buf = (2, None, w\<lparr> written := written w @ buf \<rparr>)"
      by (simp add: Write_def)
    from inv have ne: "(word_of_nat (length buf) :: int64) \<noteq> wn + word_of_nat 2"
      by auto
    from prems(2) wr ne inv
    have step: "loop buf (wn + 2) (w\<lparr> written := written w @ buf \<rparr>) = Some y"
      by simp
    have "length buf = 2 \<and> odd (wn + 2) \<and> script (w\<lparr> written := written w @ buf \<rparr>) = []"
      using inv by simp
    with prems(1) [OF step] show False by blast
  qed
  done

lemma writeTo_never_returns:
  "writeTo [1, 2] \<lparr> written = [], script = [Resp 1 None] \<rparr> = None"
proof (cases "writeTo [1, 2] \<lparr> written = [], script = [Resp 1 None] \<rparr>")
  case None
  then show ?thesis .
next
  case (Some y)
  then have "writeTo_loop [1, 2] 1 \<lparr> written = [1], script = [] \<rparr> = Some y"
    unfolding writeTo_def by (subst (asm) writeTo_loop.simps) (simp add: Write_def)
  from writeTo_loop_odd_never [OF this] show ?thesis by simp
qed

text \<open>
  C2.  The claim: for every buffer and every sink the helper transmits exactly the
  buffer, once and in order, and after a short write it goes on without sending again
  what the sink has taken.  The source offers the whole buffer again after a short write
  (\<^verbatim>\<open>w.Write(buf)\<close>, not the rest of it).  Here the buffer is \<open>1 2 3\<close> and the sink takes
  two bytes at the first call and one at the second: the helper returns without error
  and the sink holds \<open>1 2 1\<close>.  (On a sink that takes one byte of \<open>1 2\<close> and then
  every write whole, the helper does not return: \<open>writeTo_never_returns\<close>.)
\<close>

theorem writeTo_short_write_resends:
  "writeTo [1, 2, 3] \<lparr> written = [], script = [Resp 2 None, Resp 1 None] \<rparr>
     = Some (None, \<lparr> written = [1, 2, 1], script = [] \<rparr>)"
  by code_simp

subsection \<open>Closed snapshots\<close>

lemma Get_closed: "closed s \<Longrightarrow> Get get s k = (None, 0, Some ErrAlreadyClosed)"
  by (simp add: Get_def)

lemma Ts_closed: "closed s \<Longrightarrow> Ts s = (0, Some ErrAlreadyClosed)"
  by (simp add: Ts_def)

lemma Reader_closed: "closed s \<Longrightarrow> Reader findLeaf s spec = ((None, Some ErrAlreadyClosed), s)"
  by (simp add: Reader_def)

lemma closedReader_closed: "closed s \<Longrightarrow> closedReader s r = (Some ErrAlreadyClosed, s)"
  by (simp add: closedReader_def)

text \<open>
  C1.  The claim: on a closed snapshot \<^verbatim>\<open>Get\<close>, \<^verbatim>\<open>Ts\<close> and \<^verbatim>\<open>Reader\<close> return
  \<^verbatim>\<open>ErrAlreadyClosed\<close>, and \<^verbatim>\<open>WriteTo\<close> writes nothing.  The first three do
  (\<open>Get_closed\<close>, \<open>Ts_closed\<close>, \<open>Reader_closed\<close>); \<^verbatim>\<open>WriteTo\<close> does not look at
  \<^verbatim>\<open>closed\<close>.  Here the snapshot is closed and its root is an empty leaf: \<^verbatim>\<open>WriteTo\<close>
  returns 13 and no error, and the sink holds the 13 bytes of the root record.
\<close>

theorem WriteTo_closed_snapshot_writes:
  "WriteTo \<lparr> out = \<lparr> written = [], script = [] \<rparr>, lookups = 0 \<rparr>
           \<lparr> OnlyMutated = False, BaseOffset = 0, CommitLog = False \<rparr>
           \<lparr> sid = 1, root = leafE, readers = [], maxReaderID = 0, closed = True \<rparr>
     = Some ((13, None),
             \<lparr> sid = 1, root = leafE, readers = [], maxReaderID = 0, closed = True \<rparr>,
             \<lparr> out = \<lparr> written = [3, 0, 0, 0, 9, 0, 0, 0, 0, 0, 0, 0, 9], script = [] \<rparr>,
               lookups = 0 \<rparr>)"
  by code_simp

subsection \<open>Closing a snapshot\<close>

lemma map_delete_keys: "fst ` set (map_delete k m) = fst ` set m - {k}"
proof (induction m)
  case Nil
  show ?case by simp
next
  case (Cons a m)
  obtain k' r' where a: "a = (k', r')" by (cases a)
  show ?case
  proof (cases "k = k'")
    case True
    with Cons a show ?thesis by auto
  next
    case False
    with Cons a show ?thesis by auto
  qed
qed

lemma closeReaders_result:
  "\<not> closed s \<Longrightarrow>
   closeReaders s rs = (None, s\<lparr> readers := fold (\<lambda>r. map_delete (rid r)) rs (readers s) \<rparr>)"
  by (induction rs arbitrary: s) (simp_all add: closedReader_def)

lemma keys_fold_delete:
  "fst ` set (fold (\<lambda>r. map_delete (rid r)) rs m) = fst ` set m - rid ` set rs"
proof (induction rs arbitrary: m)
  case Nil
  show ?case by simp
next
  case (Cons r rs)
  have "fst ` set (fold (\<lambda>r. map_delete (rid r)) (r # rs) m)
          = fst ` set (map_delete (rid r) m) - rid ` set rs"
    using Cons [of "map_delete (rid r) m"] by simp
  also have "\<dots> = fst ` set m - rid ` set (r # rs)"
    unfolding map_delete_keys by auto
  finally show ?case .
qed


lemma Close_after_readers:
  assumes open_s: "\<not> closed s" and all: "fst ` set (readers s) \<subseteq> rid ` set rs"
  shows "\<exists>s'. closeReaders s rs = (None, s') \<and> \<not> closed s' \<and> readers s' = [] \<and>
            (\<forall>t''. sc t s' = (None, t'') \<longrightarrow>
                   Close sc t s' = (None, s'\<lparr> closed := True \<rparr>, t''))"
proof -
  define s' where "s' = s\<lparr> readers := fold (\<lambda>r. map_delete (rid r)) rs (readers s) \<rparr>"
  have run: "closeReaders s rs = (None, s')"
    unfolding s'_def by (rule closeReaders_result [OF open_s])
  have still: "\<not> closed s'"
    using open_s by (simp add: s'_def)
  have "fst ` set (readers s') = {}"
    using all by (simp add: s'_def keys_fold_delete)
  then have empty: "readers s' = []" by simp
  have "\<forall>t''. sc t s' = (None, t'') \<longrightarrow> Close sc t s' = (None, s'\<lparr> closed := True \<rparr>, t'')"
    using still empty by (simp add: Close_def)
  with run still empty show ?thesis by blast
qed

text \<open>
  C4.  \<^verbatim>\<open>Close\<close> on a closed snapshot returns \<^verbatim>\<open>ErrAlreadyClosed\<close>, and on an open one
  with a reader in the registry \<^verbatim>\<open>ErrReadersNotClosed\<close>; in both cases the tree is as
  before, so \<^verbatim>\<open>snapshotClosed\<close> has not run.  Otherwise the tree after the call is the
  one that a single run of \<^verbatim>\<open>snapshotClosed\<close> leaves: when it returns no error the
  snapshot is closed and \<^verbatim>\<open>Close\<close> returns no error, when it returns an error \<^verbatim>\<open>Close\<close>
  returns that error and the snapshot is as before, still open.  Once \<^verbatim>\<open>closedReader\<close>
  has run for every reader of the registry, the registry is empty and \<^verbatim>\<open>Close\<close> is
  in this last case: it succeeds when the notification does.
\<close>

theorem Close_lifecycle:
  "(closed s \<longrightarrow> Close sc t s = (Some ErrAlreadyClosed, s, t)) \<and>
   (\<not> closed s \<and> readers s \<noteq> [] \<longrightarrow> Close sc t s = (Some ErrReadersNotClosed, s, t)) \<and>
   (\<not> closed s \<and> readers s = [] \<and> sc t s = (None, t') \<longrightarrow>
      Close sc t s = (None, s\<lparr> closed := True \<rparr>, t')) \<and>
   (\<not> closed s \<and> readers s = [] \<and> sc t s = (Some e, t') \<longrightarrow>
      Close sc t s = (Some e, s, t')) \<and>
   (\<not> closed s \<and> fst ` set (readers s) \<subseteq> rid ` set rs \<longrightarrow>
      (\<exists>s'. closeReaders s rs = (None, s') \<and> \<not> closed s' \<and> readers s' = [] \<and>
            (\<forall>t''. sc t s' = (None, t'') \<longrightarrow>
                   Close sc t s' = (None, s'\<lparr> closed := True \<rparr>, t''))))"
proof (intro conjI impI)
  assume "closed s"
  then show "Close sc t s = (Some ErrAlreadyClosed, s, t)"
    by (simp add: Close_def)
next
  assume "\<not> closed s \<and> readers s \<noteq> []"
  then show "Close sc t s = (Some ErrReadersNotClosed, s, t)"
    by (simp add: Close_def)
next
  assume "\<not> closed s \<and> readers s = [] \<and> sc t s = (None, t')"
  then show "Close sc t s = (None, s\<lparr> closed := True \<rparr>, t')"
    by (simp add: Close_def)
next
  assume "\<not> closed s \<and> readers s = [] \<and> sc t s = (Some e, t')"
  then show "Close sc t s = (Some e, s, t')"
    by (simp add: Close_def)
next
  assume "\<not> closed s \<and> fst ` set (readers s) \<subseteq> rid ` set rs"
  then show "\<exists>s'. closeReaders s rs = (None, s') \<and> \<not> closed s' \<and> readers s' = [] \<and>
            (\<forall>t''. sc t s' = (None, t'') \<longrightarrow>
                   Close sc t s' = (None, s'\<lparr> closed := True \<rparr>, t''))"
    using Close_after_readers [of s rs sc t] by blast
qed

theorem Close_lifecycle_witness:
  "Close tree_ok 0 (snap0\<lparr> closed := True \<rparr>) = (Some ErrAlreadyClosed, snap0\<lparr> closed := True \<rparr>, 0) \<and>
   Close tree_ok 0 (snap0\<lparr> readers := [(0, reader0)] \<rparr>)
     = (Some ErrReadersNotClosed, snap0\<lparr> readers := [(0, reader0)] \<rparr>, 0) \<and>
   Close tree_ok 0 snap0 = (None, snap0\<lparr> closed := True \<rparr>, 1) \<and>
   Close tree_failing 0 snap0 = (Some (ErrIO ''tree''), snap0, 1) \<and>
   closeReaders (snap0\<lparr> readers := [(0, reader0)] \<rparr>) [reader0] = (None, snap0)"
proof -
  have c: "\<not> closed snap0" and r: "readers snap0 = []"
    by (simp_all add: snap0_def)
  have ok: "tree_ok 0 snap0 = (None, 1)" and bad: "tree_failing 0 snap0 = (Some (ErrIO ''tree''), 1)"
    by (simp_all add: tree_ok_def tree_failing_def)
  have 1: "Close tree_ok 0 (snap0\<lparr> closed := True \<rparr>) = (Some ErrAlreadyClosed, snap0\<lparr> closed := True \<rparr>, 0)"
    using Close_lifecycle [of "snap0\<lparr> closed := True \<rparr>" tree_ok 0] by simp
  have 2: "Close tree_ok 0 (snap0\<lparr> readers := [(0, reader0)] \<rparr>)
     = (Some ErrReadersNotClosed, snap0\<lparr> readers := [(0, reader0)] \<rparr>, 0)"
    using Close_lifecycle [of "snap0\<lparr> readers := [(0, reader0)] \<rparr>" tree_ok 0] c by simp
  have 3: "Close tree_ok 0 snap0 = (None, snap0\<lparr> closed := True \<rparr>, 1)"
    using Close_lifecycle [of snap0 tree_ok 0 1] c r ok by simp
  have 4: "Close tree_failing 0 snap0 = (Some (ErrIO ''tree''), snap0, 1)"
    using Close_lifecycle [of snap0 tree_failing 0 1 "ErrIO ''tree''"] c r bad by blast
  have 5: "closeReaders (snap0\<lparr> readers := [(0, reader0)] \<rparr>) [reader0] = (None, snap0)"
    by (simp add: closedReader_def snap0_def reader0_def)
  from 1 2 3 4 5 show ?thesis by blast
qed

subsection \<open>Opening readers\<close>

lemma sint_maxInt: "sint maxInt = 9223372036854775807"
  by (simp add: maxInt_def)

lemma sint_succ:
  assumes "x \<noteq> maxInt"
  shows "sint (x + 1 :: int64) = sint x + 1"
proof -
  have "sint x \<noteq> sint maxInt"
    using assms signed_word_eqI by blast
  then have ne: "sint x \<noteq> 9223372036854775807"
    by (simp add: sint_maxInt)
  have up: "sint x < 2 ^ 63"
    using sint_lt [of x] by simp
  have lo: "- (2 ^ 63) \<le> sint x"
    using sint_ge [of x] by simp
  from ne up lo have "- (2 ^ 63) \<le> sint x + 1" and "sint x + 1 < 2 ^ 63"
    by simp_all
  then have "signed_take_bit 63 (sint x + 1) = sint x + 1"
    by (rule signed_take_bit_int_eq_self)
  then show ?thesis
    by (simp add: sint_word_add)
qed

lemma sless_succ: "x \<noteq> maxInt \<Longrightarrow> x <s x + (1 :: int64)"
  by (simp add: word_sless_alt sint_succ)

lemma sless_trans_succ: "k <s x \<Longrightarrow> x \<noteq> maxInt \<Longrightarrow> k <s x + (1 :: int64)"
  by (simp add: word_sless_alt sint_succ)

lemma map_store_keys: "fst ` set (map_store k r m) = insert k (fst ` set m)"
proof (induction m)
  case Nil
  show ?case by simp
next
  case (Cons a m)
  obtain k' r' where a: "a = (k', r')" by (cases a)
  show ?case
  proof (cases "k = k'")
    case True
    with a show ?thesis by auto
  next
    case False
    with Cons a show ?thesis by auto
  qed
qed

lemma map_of_map_store: "map_of (map_store k r m) k = Some r"
proof (induction m)
  case Nil
  show ?case by simp
next
  case (Cons a m)
  obtain k' r' where a: "a = (k', r')" by (cases a)
  with Cons show ?case by simp
qed

text \<open>
  C5, as stated, fails where the counter wraps.  The claim: after a successful
  \<^verbatim>\<open>Reader\<close> the field \<^verbatim>\<open>maxReaderID\<close> is strictly greater than before.  It is a Go
  \<^verbatim>\<open>int\<close>, and \<^verbatim>\<open>s.maxReaderID++\<close> wraps at the largest value: here the snapshot has
  \<^verbatim>\<open>maxReaderID\<close> \<open>2\<^sup>6\<^sup>3 - 1\<close>, the call succeeds with that id, and the field is
  \<open>- 2\<^sup>6\<^sup>3\<close> afterwards, which is less.
\<close>

theorem Reader_wraps_maxReaderID:
  "fst (Reader find_ok (snap0\<lparr> maxReaderID := 9223372036854775807 \<rparr>) (Some spec0))
     = (Some (reader0\<lparr> rid := 9223372036854775807 \<rparr>), None) \<and>
   sint (maxReaderID (snap0\<lparr> maxReaderID := 9223372036854775807 \<rparr>)) = 9223372036854775807 \<and>
   sint (maxReaderID (snd (Reader find_ok (snap0\<lparr> maxReaderID := 9223372036854775807 \<rparr>) (Some spec0))))
     = - 9223372036854775808 \<and>
   maxReaderID (snd (Reader find_ok (snap0\<lparr> maxReaderID := 9223372036854775807 \<rparr>) (Some spec0)))
     <s maxReaderID (snap0\<lparr> maxReaderID := 9223372036854775807 \<rparr>)"
  by (simp add: Reader_def find_ok_def snap0_def spec0_def reader0_def word_sless_alt Let_def)

lemma closedReader_keeps_ids_below:
  assumes below: "\<forall>k \<in> fst ` set (readers s). k <s maxReaderID s"
  shows "\<forall>k \<in> fst ` set (readers (snd (closedReader s r))).
           k <s maxReaderID (snd (closedReader s r))"
proof (cases "closed s")
  case True
  then have "snd (closedReader s r) = s"
    by (simp add: closedReader_def)
  with below show ?thesis by simp
next
  case False
  have sub: "fst ` set (map_delete (rid r) (readers s)) \<subseteq> fst ` set (readers s)"
    unfolding map_delete_keys by blast
  have rest: "\<forall>k \<in> fst ` set (map_delete (rid r) (readers s)). k <s maxReaderID s"
    using below sub by blast
  from False have "readers (snd (closedReader s r)) = map_delete (rid r) (readers s)"
    and "maxReaderID (snd (closedReader s r)) = maxReaderID s"
    by (simp_all add: closedReader_def)
  with rest show ?thesis by simp
qed

text \<open>
  C5, amended.  On an open snapshot \<^verbatim>\<open>Reader\<close> returns \<^verbatim>\<open>ErrIllegalArgument\<close> for a
  \<^verbatim>\<open>nil\<close> spec, and \<^verbatim>\<open>ErrNoMoreEntries\<close> when the descent returns \<^verbatim>\<open>ErrKeyNotFound\<close>.
  When the descent succeeds, the reader has the id \<^verbatim>\<open>maxReaderID\<close>, the registry maps
  that id to it and has no other new key, and \<^verbatim>\<open>maxReaderID\<close> is one more (modulo
  \<open>2\<^sup>6\<^sup>4\<close>).  Where \<^verbatim>\<open>maxReaderID\<close> is not the largest \<^verbatim>\<open>int\<close> it is strictly greater
  than before.  Where every registered id is below \<^verbatim>\<open>maxReaderID\<close>, the new id is not
  in the registry before the call, and (away from the largest \<^verbatim>\<open>int\<close>) every
  registered id is below \<^verbatim>\<open>maxReaderID\<close> after the call again, so that no later
  reader gets an id handed out before; \<^verbatim>\<open>closedReader\<close> keeps that bound too
  (\<open>closedReader_keeps_ids_below\<close>).
\<close>

theorem Reader_spec:
  assumes open_s: "\<not> closed s"
  shows
  "Reader f s None = ((None, Some ErrIllegalArgument), s) \<and>
   (f (root s) (initialKey sp) (ascOrder sp) = (path, lf, ofs, Some ErrKeyNotFound) \<longrightarrow>
      Reader f s (Some sp) = ((None, Some ErrNoMoreEntries), s)) \<and>
   (f (root s) (initialKey sp) (ascOrder sp) = (path, lf, ofs, None) \<longrightarrow>
      (\<exists>r s'. Reader f s (Some sp) = ((Some r, None), s') \<and>
         rid r = maxReaderID s \<and>
         map_of (readers s') (rid r) = Some r \<and>
         fst ` set (readers s') = insert (rid r) (fst ` set (readers s)) \<and>
         maxReaderID s' = maxReaderID s + 1 \<and>
         (maxReaderID s \<noteq> maxInt \<longrightarrow> maxReaderID s <s maxReaderID s') \<and>
         ((\<forall>k \<in> fst ` set (readers s). k <s maxReaderID s) \<longrightarrow>
            rid r \<notin> fst ` set (readers s) \<and>
            (maxReaderID s \<noteq> maxInt \<longrightarrow>
               (\<forall>k \<in> fst ` set (readers s'). k <s maxReaderID s')))))"
proof (intro conjI impI)
  show "Reader f s None = ((None, Some ErrIllegalArgument), s)"
    using open_s by (simp add: Reader_def)
next
  assume "f (root s) (initialKey sp) (ascOrder sp) = (path, lf, ofs, Some ErrKeyNotFound)"
  then show "Reader f s (Some sp) = ((None, Some ErrNoMoreEntries), s)"
    using open_s by (simp add: Reader_def)
next
  assume found: "f (root s) (initialKey sp) (ascOrder sp) = (path, lf, ofs, None)"
  define r where "r = \<lparr> rid = maxReaderID s, rinitialKey = initialKey sp,
                        risPrefix = isPrefix sp, rascOrder = ascOrder sp, rpath = path,
                        rleafNode = lf, roffset = ofs, rclosed = False \<rparr>"
  define s' where "s' = s\<lparr> readers := map_store (rid r) r (readers s),
                          maxReaderID := maxReaderID s + 1 \<rparr>"
  have run: "Reader f s (Some sp) = ((Some r, None), s')"
    using open_s found by (simp add: Reader_def r_def s'_def Let_def)
  have id: "rid r = maxReaderID s"
    by (simp add: r_def)
  have reg: "map_of (readers s') (rid r) = Some r"
    by (simp add: s'_def map_of_map_store)
  have keys: "fst ` set (readers s') = insert (rid r) (fst ` set (readers s))"
    by (simp add: s'_def map_store_keys)
  have next_id: "maxReaderID s' = maxReaderID s + 1"
    by (simp add: s'_def)
  have grows: "maxReaderID s \<noteq> maxInt \<longrightarrow> maxReaderID s <s maxReaderID s'"
    by (simp add: next_id sless_succ)
  have fresh: "(\<forall>k \<in> fst ` set (readers s). k <s maxReaderID s) \<longrightarrow>
            rid r \<notin> fst ` set (readers s) \<and>
            (maxReaderID s \<noteq> maxInt \<longrightarrow>
               (\<forall>k \<in> fst ` set (readers s'). k <s maxReaderID s'))"
  proof (intro impI conjI)
    assume below: "\<forall>k \<in> fst ` set (readers s). k <s maxReaderID s"
    show "rid r \<notin> fst ` set (readers s)"
    proof
      assume "rid r \<in> fst ` set (readers s)"
      with below have "rid r <s maxReaderID s" by blast
      with id show False by (simp add: word_sless_alt)
    qed
    assume nomax: "maxReaderID s \<noteq> maxInt"
    show "\<forall>k \<in> fst ` set (readers s'). k <s maxReaderID s'"
    proof
      fix k assume "k \<in> fst ` set (readers s')"
      with keys have "k = maxReaderID s \<or> k \<in> fst ` set (readers s)"
        by (simp add: id)
      then show "k <s maxReaderID s'"
      proof
        assume "k = maxReaderID s"
        with nomax show ?thesis by (simp add: next_id sless_succ)
      next
        assume "k \<in> fst ` set (readers s)"
        with below have "k <s maxReaderID s" by blast
        with nomax show ?thesis by (simp add: next_id sless_trans_succ)
      qed
    qed
  qed
  from run id reg keys next_id grows fresh
  show "\<exists>r s'. Reader f s (Some sp) = ((Some r, None), s') \<and>
         rid r = maxReaderID s \<and>
         map_of (readers s') (rid r) = Some r \<and>
         fst ` set (readers s') = insert (rid r) (fst ` set (readers s)) \<and>
         maxReaderID s' = maxReaderID s + 1 \<and>
         (maxReaderID s \<noteq> maxInt \<longrightarrow> maxReaderID s <s maxReaderID s') \<and>
         ((\<forall>k \<in> fst ` set (readers s). k <s maxReaderID s) \<longrightarrow>
            rid r \<notin> fst ` set (readers s) \<and>
            (maxReaderID s \<noteq> maxInt \<longrightarrow>
               (\<forall>k \<in> fst ` set (readers s'). k <s maxReaderID s')))"
    by blast
qed

theorem Reader_spec_witness:
  "\<not> closed snap0 \<and>
   Reader find_ok snap0 None = ((None, Some ErrIllegalArgument), snap0) \<and>
   Reader find_none snap0 (Some spec0) = ((None, Some ErrNoMoreEntries), snap0) \<and>
   Reader find_ok snap0 (Some spec0)
     = ((Some reader0, None), snap0\<lparr> readers := [(0, reader0)], maxReaderID := 1 \<rparr>) \<and>
   maxReaderID snap0 <s maxReaderID (snd (Reader find_ok snap0 (Some spec0)))"
proof -
  have c: "\<not> closed snap0"
    by (simp add: snap0_def)
  have 1: "Reader find_ok snap0 None = ((None, Some ErrIllegalArgument), snap0)"
    using Reader_spec [OF c, of find_ok] by simp
  have 2: "Reader find_none snap0 (Some spec0) = ((None, Some ErrNoMoreEntries), snap0)"
    using Reader_spec [OF c, of find_none spec0 "[]" leafK 0]
    by (simp add: find_none_def snap0_def)
  have run: "Reader find_ok snap0 (Some spec0)
     = ((Some reader0, None), snap0\<lparr> readers := [(0, reader0)], maxReaderID := 1 \<rparr>)"
    by (simp add: Reader_def find_ok_def snap0_def spec0_def reader0_def Let_def)
  have nomax: "maxReaderID snap0 \<noteq> maxInt"
    by (simp add: snap0_def maxInt_def)
  have 3: "maxReaderID snap0 <s maxReaderID (snd (Reader find_ok snap0 (Some spec0)))"
    using Reader_spec [OF c, of find_ok spec0 "[]" leafK 0] nomax
    by (auto simp: find_ok_def snap0_def)
  from c 1 2 run 3 show ?thesis by blast
qed

subsection \<open>Serialization: the cases of a run\<close>

lemma inner_cases:
  assumes "node_writeTo st r opts (InnerNode p cs) = Some (n', st', ofs, w, e)"
  obtains (skip) "OnlyMutated opts" "0 <s off p" "n' = InnerNode p cs" "st' = st"
      "ofs = off p" "w = 0" "e = None"
  | (child_err) cs1 cw1 x where "\<not> (OnlyMutated opts \<and> 0 <s off p)"
      "children_writeTo st opts 0 cs = Some (cs1, st', cw1, Some x)"
      "n' = InnerNode p cs1" "ofs = 0" "w = 0" "e = Some x"
  | (finish) cs1 st1 cw1 where "\<not> (OnlyMutated opts \<and> 0 <s off p)"
      "children_writeTo st opts 0 cs = Some (cs1, st1, cw1, None)"
      "innerNode_finish st1 r opts p cs1 cw1 = Some (n', st', ofs, w, e)"
  using assms by (auto split: if_splits option.splits)

lemma ref_cases:
  assumes "node_writeTo st r opts (NodeRef p nd res) = Some (n', st', ofs, w, e)"
  obtains (skip) "OnlyMutated opts" "case nd of None \<Rightarrow> True | Some m \<Rightarrow> 0 <s offset m"
      "n' = NodeRef p nd res" "st' = st" "ofs = off p" "w = 0" "e = None"
  | (fail) x where "\<not> (OnlyMutated opts \<and> (case nd of None \<Rightarrow> True | Some m \<Rightarrow> 0 <s offset m))"
      "res = Inl x" "n' = NodeRef p nd res" "st' = st\<lparr> lookups := lookups st + 1 \<rparr>"
      "ofs = 0" "w = 0" "e = Some x"
  | (load) m m' where "\<not> (OnlyMutated opts \<and> (case nd of None \<Rightarrow> True | Some m \<Rightarrow> 0 <s offset m))"
      "res = Inr m"
      "node_writeTo (st\<lparr> lookups := lookups st + 1 \<rparr>) r opts m = Some (m', st', ofs, w, e)"
      "n' = NodeRef p nd (Inr m')"
  using assms by (auto split: if_splits option.splits sum.splits)

lemma children_cases:
  assumes "children_writeTo st opts cw (c # cs) = Some (cs', st', cw', e)"
  obtains (skip) ds where "OnlyMutated opts" "\<not> mutated c"
      "children_writeTo st opts cw cs = Some (ds, st', cw', e)" "cs' = c # ds"
  | (err) c1 ofs w x where "\<not> (OnlyMutated opts \<and> \<not> mutated c)"
      "node_writeTo st False (opts\<lparr> BaseOffset := BaseOffset opts + cw \<rparr>) c = Some (c1, st', ofs, w, Some x)"
      "cs' = c1 # cs" "cw' = cw" "e = Some x"
  | (go) c1 st1 ofs w ds where "\<not> (OnlyMutated opts \<and> \<not> mutated c)"
      "node_writeTo st False (opts\<lparr> BaseOffset := BaseOffset opts + cw \<rparr>) c = Some (c1, st1, ofs, w, None)"
      "children_writeTo st1 opts (cw + w) cs = Some (ds, st', cw', e)" "cs' = c1 # ds"
  using assms by (auto split: if_splits option.splits)

lemma leaf_cases:
  assumes run: "leafNode_writeTo st r opts p vs = Some (n', st', ofs, w, e)"
  obtains (skip) "OnlyMutated opts" "0 <s off p" "n' = LeafNode p vs" "st' = st"
      "ofs = off p" "w = 0" "e = None"
  | (panic) "\<not> (OnlyMutated opts \<and> 0 <s off p)" "\<not> fits (size p) (leafNode_buf r p vs)"
      "n' = LeafNode p vs" "st' = st" "ofs = 0" "w = 0" "e = Some PanicOutOfRange"
  | (err) x w' where "\<not> (OnlyMutated opts \<and> 0 <s off p)" "fits (size p) (leafNode_buf r p vs)"
      "writeTo (leafNode_buf r p vs) (out st) = Some (Some x, w')"
      "n' = LeafNode p vs" "st' = st\<lparr> out := w' \<rparr>" "ofs = 0" "w = 0" "e = Some x"
  | (ok) w' where "\<not> (OnlyMutated opts \<and> 0 <s off p)" "fits (size p) (leafNode_buf r p vs)"
      "writeTo (leafNode_buf r p vs) (out st) = Some (None, w')"
      "n' = LeafNode (if CommitLog opts then p\<lparr> off := BaseOffset opts \<rparr> else p) vs"
      "st' = st\<lparr> out := w' \<rparr>" "ofs = BaseOffset opts"
      "w = (if r then size p + 4 else size p)" "e = None"
proof (cases "OnlyMutated opts \<and> 0 <s off p")
  case True
  with run have "n' = LeafNode p vs \<and> st' = st \<and> ofs = off p \<and> w = 0 \<and> e = None"
    by (auto simp: leafNode_writeTo_def split: if_splits)
  with True show thesis using skip by blast
next
  case ns: False
  show thesis
  proof (cases "fits (size p) (leafNode_buf r p vs)")
    case False
    with ns run have "n' = LeafNode p vs \<and> st' = st \<and> ofs = 0 \<and> w = 0 \<and> e = Some PanicOutOfRange"
      by (auto simp: leafNode_writeTo_def split: if_splits)
    with ns False show thesis using panic by blast
  next
    case f: True
    show thesis
    proof (cases "writeTo (leafNode_buf r p vs) (out st)")
      case None
      with ns f run show thesis by (auto simp: leafNode_writeTo_def split: if_splits)
    next
      case (Some a)
      obtain eo w' where a: "a = (eo, w')" by (cases a)
      show thesis
      proof (cases eo)
        case None
        with Some a ns f run have
          "n' = LeafNode (if CommitLog opts then p\<lparr> off := BaseOffset opts \<rparr> else p) vs \<and>
           st' = st\<lparr> out := w' \<rparr> \<and> ofs = BaseOffset opts \<and>
           w = (if r then size p + 4 else size p) \<and> e = None"
          by (auto simp: leafNode_writeTo_def split: if_splits)
        moreover from Some a None have "writeTo (leafNode_buf r p vs) (out st) = Some (None, w')"
          by simp
        ultimately show thesis using ns f ok by blast
      next
        case (Some x)
        with \<open>writeTo (leafNode_buf r p vs) (out st) = Some a\<close> a ns f run have
          "n' = LeafNode p vs \<and> st' = st\<lparr> out := w' \<rparr> \<and> ofs = 0 \<and> w = 0 \<and> e = Some x"
          by (auto simp: leafNode_writeTo_def split: if_splits)
        moreover from \<open>writeTo (leafNode_buf r p vs) (out st) = Some a\<close> a Some
        have "writeTo (leafNode_buf r p vs) (out st) = Some (Some x, w')"
          by simp
        ultimately show thesis using ns f err by blast
      qed
    qed
  qed
qed

lemma finish_cases:
  assumes run: "innerNode_finish st r opts p cs cw = Some (n', st', ofs, w, e)"
  obtains (panic) "\<not> fits (size p) (innerNode_buf r p cs)"
      "n' = InnerNode p cs" "st' = st" "ofs = 0" "w = 0" "e = Some PanicOutOfRange"
  | (err) x w' where "fits (size p) (innerNode_buf r p cs)"
      "writeTo (innerNode_buf r p cs) (out st) = Some (Some x, w')"
      "n' = InnerNode p cs" "st' = st\<lparr> out := w' \<rparr>" "ofs = 0" "w = 0" "e = Some x"
  | (ok) w' where "fits (size p) (innerNode_buf r p cs)"
      "writeTo (innerNode_buf r p cs) (out st) = Some (None, w')"
      "n' = InnerNode (if CommitLog opts then p\<lparr> off := BaseOffset opts + cw \<rparr> else p) cs"
      "st' = st\<lparr> out := w' \<rparr>" "ofs = BaseOffset opts + cw"
      "w = (if r then cw + size p + 4 else cw + size p)" "e = None"
proof (cases "fits (size p) (innerNode_buf r p cs)")
  case False
  with run have "n' = InnerNode p cs \<and> st' = st \<and> ofs = 0 \<and> w = 0 \<and> e = Some PanicOutOfRange"
    by (auto simp: innerNode_finish_def split: if_splits)
  with False show thesis using panic by blast
next
  case f: True
  show thesis
  proof (cases "writeTo (innerNode_buf r p cs) (out st)")
    case None
    with f run show thesis by (auto simp: innerNode_finish_def split: if_splits)
  next
    case (Some a)
    obtain eo w' where a: "a = (eo, w')" by (cases a)
    show thesis
    proof (cases eo)
      case None
      with Some a f run have
        "n' = InnerNode (if CommitLog opts then p\<lparr> off := BaseOffset opts + cw \<rparr> else p) cs \<and>
         st' = st\<lparr> out := w' \<rparr> \<and> ofs = BaseOffset opts + cw \<and>
         w = (if r then cw + size p + 4 else cw + size p) \<and> e = None"
        by (auto simp: innerNode_finish_def split: if_splits)
      moreover from Some a None have "writeTo (innerNode_buf r p cs) (out st) = Some (None, w')"
        by simp
      ultimately show thesis using f ok by blast
    next
      case (Some x)
      with \<open>writeTo (innerNode_buf r p cs) (out st) = Some a\<close> a f run have
        "n' = InnerNode p cs \<and> st' = st\<lparr> out := w' \<rparr> \<and> ofs = 0 \<and> w = 0 \<and> e = Some x"
        by (auto simp: innerNode_finish_def split: if_splits)
      moreover from \<open>writeTo (innerNode_buf r p cs) (out st) = Some a\<close> a Some
      have "writeTo (innerNode_buf r p cs) (out st) = Some (Some x, w')"
        by simp
      ultimately show thesis using f err by blast
    qed
  qed
qed

subsection \<open>Serialization: what a run changes\<close>

lemma leafNode_writeTo_keeps:
  "leafNode_writeTo st r opts p vs = Some (n', st', ofs, w, e) \<Longrightarrow> \<not> CommitLog opts \<Longrightarrow>
   n' = LeafNode p vs"
  by (auto simp: leafNode_writeTo_def split: if_splits option.splits)

lemma innerNode_finish_keeps:
  "innerNode_finish st r opts p cs cw = Some (n', st', ofs, w, e) \<Longrightarrow> \<not> CommitLog opts \<Longrightarrow>
   n' = InnerNode p cs"
  by (auto simp: innerNode_finish_def split: if_splits option.splits)

lemma writeTo_keeps_nodes:
  "node_writeTo st r opts n = Some (n', st', ofs, w, e) \<Longrightarrow> \<not> CommitLog opts \<Longrightarrow> n' = n"
  "children_writeTo st opts cw cs = Some (cs', st'', cw', e') \<Longrightarrow> \<not> CommitLog opts \<Longrightarrow> cs' = cs"
proof (induction st r opts n and st opts cw cs
    arbitrary: n' st' ofs w e and cs' st'' cw' e'
    rule: node_writeTo_children_writeTo.induct)
  case (1 st asRoot opts p vs)
  then show ?case by (simp add: leafNode_writeTo_keeps)
next
  case (2 st asRoot opts p cs)
  then show ?case
    by (auto split: if_splits option.splits dest: innerNode_finish_keeps)
next
  case (3 st asRoot opts p nd res)
  then show ?case
    by (auto split: if_splits option.splits sum.splits)
next
  case (4 st opts cw)
  then show ?case by simp
next
  case (5 st opts cw c cs)
  then show ?case
    by (auto split: if_splits option.splits)
qed

lemma length_be32 [simp]: "length (be32 v) = 4"
  by (simp add: be32_def)

lemma length_be64 [simp]: "length (be64 v) = 8"
  by (simp add: be64_def)

lemma length_writeNodeRefTo: "length (writeNodeRefTo n) = 24 + length (maxKey (props_of n))"
  by (simp add: writeNodeRefTo_def)

lemma maxKey_erase: "maxKey (props_of (erase n)) = maxKey (props_of n)"
  by (cases n) simp_all

lemma erase_maxKey:
  assumes "erase a = erase b"
  shows "maxKey (props_of a) = maxKey (props_of b)"
proof -
  have "maxKey (props_of a) = maxKey (props_of (erase a))"
    by (simp only: maxKey_erase)
  also have "\<dots> = maxKey (props_of (erase b))"
    by (simp only: assms)
  also have "\<dots> = maxKey (props_of b)"
    by (simp only: maxKey_erase)
  finally show ?thesis .
qed

lemma erase_refs_length:
  "map erase cs' = map erase cs \<Longrightarrow>
   length (concat (map writeNodeRefTo cs')) = length (concat (map writeNodeRefTo cs))"
proof (induction cs arbitrary: cs')
  case Nil
  then show ?case by simp
next
  case (Cons c cs)
  from Cons.prems obtain c' ds where cs': "cs' = c' # ds"
    by (cases cs') simp_all
  with Cons.prems have c: "erase c' = erase c" and ds: "map erase ds = map erase cs"
    by simp_all
  have "length (writeNodeRefTo c') = length (writeNodeRefTo c)"
    using erase_maxKey [OF c] by (simp add: length_writeNodeRefTo)
  with Cons.IH [OF ds] cs' show ?case by simp
qed

lemma erase_innerNode_buf_length:
  assumes "map erase cs' = map erase cs"
  shows "length (innerNode_buf r p cs') = length (innerNode_buf r p cs)"
proof -
  from assms have "length (map erase cs') = length (map erase cs)" by simp
  then have "length cs' = length cs" by simp
  with erase_refs_length [OF assms] show ?thesis
    by (simp add: innerNode_buf_def)
qed

lemma writeTo_erase:
  "node_writeTo st r opts n = Some (n', st', ofs, w, e) \<Longrightarrow> erase n' = erase n"
  "children_writeTo st opts cw cs = Some (cs', st'', cw', e') \<Longrightarrow> map erase cs' = map erase cs"
proof (induction st r opts n and st opts cw cs
    arbitrary: n' st' ofs w e and cs' st'' cw' e'
    rule: node_writeTo_children_writeTo.induct)
  case (1 st asRoot opts p vs)
  from "1.prems" have "leafNode_writeTo st asRoot opts p vs = Some (n', st', ofs, w, e)"
    by simp
  then show ?case
    by (cases rule: leaf_cases) simp_all
next
  case (2 st asRoot opts p cs)
  from "2.prems" show ?case
  proof (cases rule: inner_cases)
    case skip
    then show ?thesis by simp
  next
    case (child_err cs1 cw1 x)
    from "2.IH" [OF child_err(1,2)] child_err show ?thesis by simp
  next
    case (finish cs1 st1 cw1)
    from "2.IH" [OF finish(1,2)] have "map erase cs1 = map erase cs" .
    with finish(3) show ?thesis
      by (cases rule: finish_cases) simp_all
  qed
next
  case (3 st asRoot opts p nd res)
  from "3.prems" show ?case
  proof (cases rule: ref_cases)
    case skip
    then show ?thesis by simp
  next
    case (fail x)
    then show ?thesis by simp
  next
    case (load m m')
    from "3.IH" [OF load(1,2,3)] load show ?thesis by simp
  qed
next
  case (4 st opts cw)
  then show ?case by simp
next
  case (5 st opts cw c cs)
  from "5.prems" show ?case
  proof (cases rule: children_cases)
    case (skip ds)
    from skip have sk: "OnlyMutated opts \<and> \<not> mutated c" by simp
    from "5.IH"(1) [OF sk skip(3)] skip show ?thesis by simp
  next
    case (err c1 ofs w x)
    from "5.IH"(2) [OF err(1,2)] err show ?thesis by simp
  next
    case (go c1 st1 ofs w ds)
    from "5.IH"(2) [OF go(1,2)] have c: "erase c1 = erase c" .
    from "5.IH"(3) [OF go(1,2) refl refl refl refl refl go(3)]
    have "map erase ds = map erase cs" .
    with c go show ?thesis by simp
  qed
qed


lemma writeTo_lookups_mono:
  "node_writeTo st r opts n = Some (n', st', ofs, w, e) \<Longrightarrow> lookups st \<le> lookups st'"
  "children_writeTo st opts cw cs = Some (cs', st'', cw', e') \<Longrightarrow> lookups st \<le> lookups st''"
proof (induction st r opts n and st opts cw cs
    arbitrary: n' st' ofs w e and cs' st'' cw' e'
    rule: node_writeTo_children_writeTo.induct)
  case (1 st asRoot opts p vs)
  from "1.prems" have "leafNode_writeTo st asRoot opts p vs = Some (n', st', ofs, w, e)"
    by simp
  then show ?case
    by (cases rule: leaf_cases) simp_all
next
  case (2 st asRoot opts p cs)
  from "2.prems" show ?case
  proof (cases rule: inner_cases)
    case skip
    then show ?thesis by simp
  next
    case (child_err cs1 cw1 x)
    from "2.IH" [OF child_err(1,2)] show ?thesis .
  next
    case (finish cs1 st1 cw1)
    from "2.IH" [OF finish(1,2)] have "lookups st \<le> lookups st1" .
    moreover from finish(3) have "lookups st1 = lookups st'"
      by (cases rule: finish_cases) simp_all
    ultimately show ?thesis by simp
  qed
next
  case (3 st asRoot opts p nd res)
  from "3.prems" show ?case
  proof (cases rule: ref_cases)
    case skip
    then show ?thesis by simp
  next
    case (fail x)
    then show ?thesis by simp
  next
    case (load m m')
    from "3.IH" [OF load(1,2,3)] show ?thesis by simp
  qed
next
  case (4 st opts cw)
  then show ?case by simp
next
  case (5 st opts cw c cs)
  from "5.prems" show ?case
  proof (cases rule: children_cases)
    case (skip ds)
    from skip have sk: "OnlyMutated opts \<and> \<not> mutated c" by simp
    from "5.IH"(1) [OF sk skip(3)] show ?thesis .
  next
    case (err c1 ofs w x)
    from "5.IH"(2) [OF err(1,2)] show ?thesis .
  next
    case (go c1 st1 ofs w ds)
    from "5.IH"(2) [OF go(1,2)] have "lookups st \<le> lookups st1" .
    moreover from "5.IH"(3) [OF go(1,2) refl refl refl refl refl go(3)]
    have "lookups st1 \<le> lookups st''" .
    ultimately show ?thesis by simp
  qed
qed

lemma writeTo_emitted:
  "node_writeTo st r opts n = Some (n', st', ofs, w, None) \<Longrightarrow> script (out st) = [] \<Longrightarrow>
   script (out st') = [] \<and>
   length (written (out st')) = length (written (out st)) + emitted (OnlyMutated opts) r n"
  "children_writeTo st opts cw cs = Some (cs', st'', cw', None) \<Longrightarrow> script (out st) = [] \<Longrightarrow>
   script (out st'') = [] \<and>
   length (written (out st'')) = length (written (out st)) + emitted_children (OnlyMutated opts) cs"
proof (induction st r opts n and st opts cw cs
    arbitrary: n' st' ofs w and cs' st'' cw'
    rule: node_writeTo_children_writeTo.induct)
  case (1 st asRoot opts p vs)
  from "1.prems"(1) have "leafNode_writeTo st asRoot opts p vs = Some (n', st', ofs, w, None)"
    by simp
  then show ?case
  proof (cases rule: leaf_cases)
    case skip
    with "1.prems"(2) show ?thesis by simp
  next
    case panic
    then show ?thesis by simp
  next
    case (err x w')
    then show ?thesis by simp
  next
    case (ok w')
    from ok(3) writeTo_whole [OF "1.prems"(2), of "leafNode_buf asRoot p vs"]
    have "w' = (out st)\<lparr> written := written (out st) @ leafNode_buf asRoot p vs \<rparr>"
      by simp
    with ok(1,5) "1.prems"(2) show ?thesis by auto
  qed
next
  case (2 st asRoot opts p cs)
  from "2.prems"(1) show ?case
  proof (cases rule: inner_cases)
    case skip
    with "2.prems"(2) show ?thesis by simp
  next
    case (child_err cs1 cw1 x)
    then show ?thesis by simp
  next
    case (finish cs1 st1 cw1)
    from "2.IH" [OF finish(1,2) "2.prems"(2)]
    have s1: "script (out st1) = []"
      and l1: "length (written (out st1)) = length (written (out st)) + emitted_children (OnlyMutated opts) cs"
      by simp_all
    have same: "length (innerNode_buf asRoot p cs1) = length (innerNode_buf asRoot p cs)"
      by (rule erase_innerNode_buf_length) (rule writeTo_erase(2) [OF finish(2)])
    from finish(3) show ?thesis
    proof (cases rule: finish_cases)
      case panic
      then show ?thesis by simp
    next
      case (err x w')
      then show ?thesis by simp
    next
      case (ok w')
      from ok(2) writeTo_whole [OF s1, of "innerNode_buf asRoot p cs1"]
      have "w' = (out st1)\<lparr> written := written (out st1) @ innerNode_buf asRoot p cs1 \<rparr>"
        by simp
      with ok(4) s1 l1 same finish(1) show ?thesis by auto
    qed
  qed
next
  case (3 st asRoot opts p nd res)
  from "3.prems"(1) show ?case
  proof (cases rule: ref_cases)
    case skip
    with "3.prems"(2) show ?thesis by simp
  next
    case (fail x)
    then show ?thesis by simp
  next
    case (load m m')
    from "3.prems"(2) have "script (out (st\<lparr> lookups := lookups st + 1 \<rparr>)) = []"
      by simp
    from "3.IH" [OF load(1,2,3) this] load(1,2) show ?thesis by auto
  qed
next
  case (4 st opts cw)
  then show ?case by simp
next
  case (5 st opts cw c cs)
  from "5.prems"(1) show ?case
  proof (cases rule: children_cases)
    case (skip ds)
    from skip have sk: "OnlyMutated opts \<and> \<not> mutated c" by simp
    from "5.IH"(1) [OF sk skip(3) "5.prems"(2)] sk show ?thesis by auto
  next
    case (err c1 ofs w x)
    then show ?thesis by simp
  next
    case (go c1 st1 ofs w ds)
    from "5.IH"(2) [OF go(1,2) "5.prems"(2)]
    have s1: "script (out st1) = []"
      and l1: "length (written (out st1)) = length (written (out st)) + emitted (OnlyMutated opts) False c"
      by simp_all
    from "5.IH"(3) [OF go(1,2) refl refl refl refl refl go(3) s1] l1 go(1)
    show ?thesis by auto
  qed
qed

lemma be32_decode:
  "(push_bit 24 (ucast (be32 v ! 0)) OR push_bit 16 (ucast (be32 v ! 1)) OR
    push_bit 8 (ucast (be32 v ! 2)) OR ucast (be32 v ! 3) :: uint32) = v"
proof (rule bit_word_eqI)
  fix n
  assume "n < LENGTH(32)"
  then consider "n < 8" | "8 \<le> n" "n < 16" | "16 \<le> n" "n < 24" | "24 \<le> n" "n < 32"
    by fastforce
  then show "bit (push_bit 24 (ucast (be32 v ! 0)) OR push_bit 16 (ucast (be32 v ! 1)) OR
    push_bit 8 (ucast (be32 v ! 2)) OR ucast (be32 v ! 3) :: uint32) n = bit v n"
    by cases (auto simp: be32_def bit_simps)
qed

lemma be64_decode:
  "(push_bit 56 (ucast (be64 v ! 0)) OR push_bit 48 (ucast (be64 v ! 1)) OR
    push_bit 40 (ucast (be64 v ! 2)) OR push_bit 32 (ucast (be64 v ! 3)) OR
    push_bit 24 (ucast (be64 v ! 4)) OR push_bit 16 (ucast (be64 v ! 5)) OR
    push_bit 8 (ucast (be64 v ! 6)) OR ucast (be64 v ! 7) :: uint64) = v"
proof (rule bit_word_eqI)
  fix n
  assume "n < LENGTH(64)"
  then consider "n < 8" | "8 \<le> n" "n < 16" | "16 \<le> n" "n < 24" | "24 \<le> n" "n < 32"
    | "32 \<le> n" "n < 40" | "40 \<le> n" "n < 48" | "48 \<le> n" "n < 56" | "56 \<le> n" "n < 64"
    by fastforce
  then show "bit (push_bit 56 (ucast (be64 v ! 0)) OR push_bit 48 (ucast (be64 v ! 1)) OR
    push_bit 40 (ucast (be64 v ! 2)) OR push_bit 32 (ucast (be64 v ! 3)) OR
    push_bit 24 (ucast (be64 v ! 4)) OR push_bit 16 (ucast (be64 v ! 5)) OR
    push_bit 8 (ucast (be64 v ! 6)) OR ucast (be64 v ! 7) :: uint64) n = bit v n"
    by cases (auto simp: be64_def bit_simps)
qed

lemma leafNode_writeTo_whole:
  assumes whole: "script (out st) = []"
    and go: "\<not> (OnlyMutated opts \<and> 0 <s off p)"
    and f: "fits (size p) (leafNode_buf r p vs)"
  shows "leafNode_writeTo st r opts p vs =
     Some (LeafNode (if CommitLog opts then p\<lparr> off := BaseOffset opts \<rparr> else p) vs,
           st\<lparr> out := (out st)\<lparr> written := written (out st) @ leafNode_buf r p vs \<rparr> \<rparr>,
           BaseOffset opts,
           (if r then size p + 4 else size p),
           None)"
  using go f writeTo_whole [OF whole, of "leafNode_buf r p vs"]
  by (auto simp: leafNode_writeTo_def)

lemma innerNode_finish_whole:
  assumes whole: "script (out st) = []"
    and f: "fits (size p) (innerNode_buf r p cs)"
  shows "innerNode_finish st r opts p cs cw =
     Some (InnerNode (if CommitLog opts then p\<lparr> off := BaseOffset opts + cw \<rparr> else p) cs,
           st\<lparr> out := (out st)\<lparr> written := written (out st) @ innerNode_buf r p cs \<rparr> \<rparr>,
           BaseOffset opts + cw,
           (if r then cw + size p + 4 else cw + size p),
           None)"
  using f writeTo_whole [OF whole, of "innerNode_buf r p cs"]
  by (auto simp: innerNode_finish_def)

lemma innerNode_writeTo_record:
  assumes whole: "script (out st) = []"
    and run: "node_writeTo st r opts (InnerNode p cs) = Some (n', st', ofs, w, None)"
    and go: "\<not> (OnlyMutated opts \<and> 0 <s off p)"
  shows "\<exists>cs' st1 cw. children_writeTo st opts 0 cs = Some (cs', st1, cw, None) \<and>
           written (out st') = written (out st1) @ innerNode_buf r p cs' \<and>
           n' = InnerNode (if CommitLog opts then p\<lparr> off := BaseOffset opts + cw \<rparr> else p) cs' \<and>
           ofs = BaseOffset opts + cw"
  using run
proof (cases rule: inner_cases)
  case skip
  with go show ?thesis by simp
next
  case (child_err cs1 cw1 x)
  then show ?thesis by simp
next
  case (finish cs1 st1 cw1)
  from writeTo_emitted(2) [OF finish(2) whole] have s1: "script (out st1) = []"
    by simp
  from finish(3) show ?thesis
  proof (cases rule: finish_cases)
    case panic
    then show ?thesis by simp
  next
    case (err x w')
    then show ?thesis by simp
  next
    case (ok w')
    from ok(2) writeTo_whole [OF s1, of "innerNode_buf r p cs1"]
    have "w' = (out st1)\<lparr> written := written (out st1) @ innerNode_buf r p cs1 \<rparr>"
      by simp
    with ok(3,4,5) finish(2) show ?thesis by simp
  qed
qed

lemma innerNode_writeTo_whole:
  assumes go: "\<not> (OnlyMutated opts \<and> 0 <s off p)"
    and whole: "script (out st) = []"
    and ch: "children_writeTo st opts 0 cs = Some (cs', st1, cw, None)"
    and f: "fits (size p) (innerNode_buf r p cs')"
  shows "node_writeTo st r opts (InnerNode p cs) =
     Some (InnerNode (if CommitLog opts then p\<lparr> off := BaseOffset opts + cw \<rparr> else p) cs',
           st1\<lparr> out := (out st1)\<lparr> written := written (out st1) @ innerNode_buf r p cs' \<rparr> \<rparr>,
           BaseOffset opts + cw,
           (if r then cw + size p + 4 else cw + size p),
           None)"
proof -
  from writeTo_emitted(2) [OF ch whole] have s1: "script (out st1) = []"
    by simp
  have "node_writeTo st r opts (InnerNode p cs) = innerNode_finish st1 r opts p cs' cw"
    using go ch by auto
  with innerNode_finish_whole [OF s1 f] show ?thesis
    by simp
qed

subsection \<open>The size fields of a root record\<close>

text \<open>
  The buffer that a root, leaf or inner node, hands to the helper is the tag, the four
  bytes of \<^verbatim>\<open>uint32(size)\<close>, the payload (count and records), and the same four bytes
  of \<^verbatim>\<open>uint32(size)\<close> again.  A sink that takes every write whole receives exactly this
  buffer (\<open>leafNode_writeTo_whole\<close>, \<open>innerNode_writeTo_whole\<close>).
\<close>

lemma root_buffer_repeats_size:
  "leafNode_buf True p vs =
     [RootLeafNodeType] @ be32 (ucast (size p)) @
     (be32 (word_of_nat (length vs)) @ concat (map entry_bytes vs)) @ be32 (ucast (size p))"
  "innerNode_buf True p cs =
     [RootInnerNodeType] @ be32 (ucast (size p)) @
     (be32 (word_of_nat (length cs)) @ concat (map writeNodeRefTo cs)) @ be32 (ucast (size p))"
  by (simp_all add: leafNode_buf_def innerNode_buf_def)

lemma root_inner_on_whole_sink:
  "node_writeTo env0 True \<lparr> OnlyMutated = False, BaseOffset = 0, CommitLog = False \<rparr> innerK
     = Some (innerK,
         \<lparr> out = \<lparr> written =
                     [2, 0, 0, 0, 35, 0, 0, 0, 1, 0, 0, 0, 1, 107, 0, 0, 0, 1, 118, 0,
                      0, 0, 0, 0, 0, 0, 1, 0, 0, 0, 0, 0, 0, 0, 0] @
                     [1] @ [0, 0, 0, 34] @
                     [0, 0, 0, 1, 0, 0, 0, 1, 107, 0, 0, 0, 0, 0, 0, 0, 1, 0, 0, 0, 35,
                      0, 0, 0, 0, 0, 0, 0, 0] @
                     [0, 0, 0, 34],
                   script = [] \<rparr>, lookups = 0 \<rparr>,
         35, 73, None)"
  by code_simp

text \<open>
  C7.  The claim: the record emitted for a root carries the size field twice, after
  the tag and after the payload, and the two fields are equal.  The buffer of a root
  does (\<open>root_buffer_repeats_size\<close>), but after a short write the helper offers the
  whole buffer again (the defect of C2), so what the sink receives need not end with
  the size.  Here the root is an empty leaf and the sink takes 12 bytes at the first
  call and one at the second: \<^verbatim>\<open>writeTo\<close> returns 13 and no error, and the record in the
  sink has \<open>0 0 0 9\<close> as its leading size field and \<open>0 0 0 3\<close> as its last four bytes.
\<close>

theorem root_record_after_short_write:
  "node_writeTo \<lparr> out = \<lparr> written = [], script = [Resp 12 None, Resp 1 None] \<rparr>, lookups = 0 \<rparr>
       True \<lparr> OnlyMutated = False, BaseOffset = 0, CommitLog = False \<rparr> leafE
     = Some (leafE,
         \<lparr> out = \<lparr> written = [3] @ [0, 0, 0, 9] @ [0, 0, 0, 0] @ [0, 0, 0, 3], script = [] \<rparr>,
           lookups = 0 \<rparr>,
         0, 13, None)"
  by code_simp

text \<open>
  C8, as stated, fails for a root.  The claim lists what \<^verbatim>\<open>leafNode.writeTo\<close> emits
  exactly: the tag, the size, the entry count and the entries.  A root leaf gets four
  bytes more, the size again after the entries.  Here the root is an empty leaf: the
  sink receives 13 bytes, and the fields that the claim lists are the first 9 of them.
\<close>

theorem root_leaf_emits_trailing_size:
  "node_writeTo env0 True \<lparr> OnlyMutated = False, BaseOffset = 0, CommitLog = False \<rparr> leafE
     = Some (leafE,
         \<lparr> out = \<lparr> written = [3, 0, 0, 0, 9, 0, 0, 0, 0, 0, 0, 0, 9], script = [] \<rparr>,
           lookups = 0 \<rparr>,
         0, 13, None) \<and>
   [RootLeafNodeType] @ be32 9 @ be32 0 @ concat (map entry_bytes [])
     = [3, 0, 0, 0, 9, 0, 0, 0, 0] \<and>
   [3, 0, 0, 0, 9, 0, 0, 0, 0, 0, 0, 0, 9] \<noteq> [3, 0, 0, 0, 9, 0, 0, 0, 0 :: byte]"
proof -
  have 1: "node_writeTo env0 True \<lparr> OnlyMutated = False, BaseOffset = 0, CommitLog = False \<rparr> leafE
     = Some (leafE,
         \<lparr> out = \<lparr> written = [3, 0, 0, 0, 9, 0, 0, 0, 0, 0, 0, 0, 9], script = [] \<rparr>,
           lookups = 0 \<rparr>,
         0, 13, None)"
    by code_simp
  have 2: "[RootLeafNodeType] @ be32 9 @ be32 0 @ concat (map entry_bytes [])
     = [3, 0, 0, 0, 9, 0, 0, 0, 0]"
    by code_simp
  from 1 2 show ?thesis by simp
qed

text \<open>
  C8, amended.  \<^verbatim>\<open>leafNode.writeTo\<close> on a leaf that is not skipped, whose buffer fits,
  and on a sink that takes every write whole: it returns \<^verbatim>\<open>BaseOffset\<close>, the size (plus
  4 for a root) and no error, and the sink has received exactly the one-byte tag,
  \<^verbatim>\<open>uint32(size)\<close>, the number of entries, for each entry in order the length of the
  key, the key, the length of the value, the value, \<^verbatim>\<open>ts\<close> and \<^verbatim>\<open>prevTs\<close>, and for a
  root \<^verbatim>\<open>uint32(size)\<close> once more.  The 4-byte and 8-byte fields are big-endian: the
  first byte holds the most significant bits (\<open>be32_decode\<close>, \<open>be64_decode\<close>).
\<close>

theorem leafNode_writeTo_layout:
  assumes whole: "script (out st) = []"
    and go: "\<not> (OnlyMutated opts \<and> 0 <s off p)"
    and f: "fits (size p) (leafNode_buf r p vs)"
  shows "\<exists>n' st'.
     node_writeTo st r opts (LeafNode p vs)
       = Some (n', st', BaseOffset opts, (if r then size p + 4 else size p), None) \<and>
     written (out st') =
       written (out st) @
       [if r then RootLeafNodeType else LeafNodeType] @
       be32 (ucast (size p)) @
       be32 (word_of_nat (length vs)) @
       concat (map (\<lambda>v. be32 (word_of_nat (length (key v))) @ key v @
                         be32 (word_of_nat (length (val v))) @ val v @
                         be64 (vts v) @ be64 (prevTs v)) vs) @
       (if r then be32 (ucast (size p)) else []) \<and>
     length (be32 (ucast (size p))) = 4 \<and>
     (\<forall>v \<in> set vs. length (be32 (word_of_nat (length (key v)))) = 4 \<and>
                    length (be64 (vts v)) = 8 \<and> length (be64 (prevTs v)) = 8)"
proof -
  let ?rec = "[if r then RootLeafNodeType else LeafNodeType] @
       be32 (ucast (size p)) @
       be32 (word_of_nat (length vs)) @
       concat (map (\<lambda>v. be32 (word_of_nat (length (key v))) @ key v @
                         be32 (word_of_nat (length (val v))) @ val v @
                         be64 (vts v) @ be64 (prevTs v)) vs) @
       (if r then be32 (ucast (size p)) else [])"
  have entries: "map entry_bytes vs =
      map (\<lambda>v. be32 (word_of_nat (length (key v))) @ key v @
                be32 (word_of_nat (length (val v))) @ val v @
                be64 (vts v) @ be64 (prevTs v)) vs"
    by (simp add: entry_bytes_def)
  have buf: "leafNode_buf r p vs = ?rec"
    unfolding leafNode_buf_def entries by simp
  let ?n = "LeafNode (if CommitLog opts then p\<lparr> off := BaseOffset opts \<rparr> else p) vs"
  let ?st = "st\<lparr> out := (out st)\<lparr> written := written (out st) @ leafNode_buf r p vs \<rparr> \<rparr>"
  have run: "node_writeTo st r opts (LeafNode p vs)
       = Some (?n, ?st, BaseOffset opts, (if r then size p + 4 else size p), None)"
    using leafNode_writeTo_whole [OF whole go f] by simp
  have "written (out ?st) = written (out st) @ leafNode_buf r p vs"
    by simp
  then have out: "written (out ?st) = written (out st) @ ?rec"
    by (simp only: buf)
  have lens: "length (be32 (ucast (size p))) = 4 \<and>
     (\<forall>v \<in> set vs. length (be32 (word_of_nat (length (key v)))) = 4 \<and>
                    length (be64 (vts v)) = 8 \<and> length (be64 (prevTs v)) = 8)"
    by simp
  from run out lens show ?thesis by blast
qed

theorem leafNode_writeTo_layout_witness:
  "script (out env0) = [] \<and>
   \<not> (OnlyMutated \<lparr> OnlyMutated = True, BaseOffset = 100, CommitLog = False \<rparr> \<and> 0 <s off propsK) \<and>
   fits (size propsK) (leafNode_buf False propsK valuesK) \<and>
   node_writeTo env0 False \<lparr> OnlyMutated = True, BaseOffset = 100, CommitLog = False \<rparr> leafK
     = Some (leafK,
         \<lparr> out = \<lparr> written = [2, 0, 0, 0, 35, 0, 0, 0, 1, 0, 0, 0, 1, 107, 0, 0, 0, 1, 118,
                                0, 0, 0, 0, 0, 0, 0, 1, 0, 0, 0, 0, 0, 0, 0, 0],
                   script = [] \<rparr>, lookups = 0 \<rparr>,
         100, 35, None)"
proof -
  let ?opts = "\<lparr> OnlyMutated = True, BaseOffset = 100, CommitLog = False \<rparr>"
  have whole: "script (out env0) = []"
    by (simp add: env0_def)
  have go: "\<not> (OnlyMutated ?opts \<and> 0 <s off propsK)"
    by (simp add: propsK_def)
  have f: "fits (size propsK) (leafNode_buf False propsK valuesK)"
    by (simp add: fits_def leafNode_buf_def propsK_def valuesK_def entry_bytes_def)
  from leafNode_writeTo_layout [OF whole go f]
  obtain n' st' where
    "node_writeTo env0 False ?opts (LeafNode propsK valuesK) = Some (n', st', 100, 35, None)"
    by (auto simp: propsK_def)
  moreover have "node_writeTo env0 False ?opts leafK
     = Some (leafK,
         \<lparr> out = \<lparr> written = [2, 0, 0, 0, 35, 0, 0, 0, 1, 0, 0, 0, 1, 107, 0, 0, 0, 1, 118,
                                0, 0, 0, 0, 0, 0, 0, 1, 0, 0, 0, 0, 0, 0, 0, 0],
                   script = [] \<rparr>, lookups = 0 \<rparr>,
         100, 35, None)"
    by code_simp
  ultimately show ?thesis
    using whole go f by blast
qed

text \<open>
  C9.  With \<^verbatim>\<open>CommitLog\<close>, a leaf that is written without error has its \<^verbatim>\<open>off\<close> set to
  \<^verbatim>\<open>BaseOffset\<close>, and an inner node that is written without error has its \<^verbatim>\<open>off\<close> set to
  \<^verbatim>\<open>BaseOffset + cw\<close>, where \<open>cw\<close> is the number of bytes that the loop over its
  children has counted; both return that offset.  Without \<^verbatim>\<open>CommitLog\<close> the node graph
  after the call is the one before it, whatever the call returns.  In both modes the
  graphs before and after differ in \<^verbatim>\<open>off\<close> fields only.
\<close>

theorem writeTo_commit_offsets:
  "(CommitLog opts \<and> \<not> (OnlyMutated opts \<and> 0 <s off p) \<and>
    node_writeTo st r opts (LeafNode p vs) = Some (n', st', ofs, w, None) \<longrightarrow>
      n' = LeafNode (p\<lparr> off := BaseOffset opts \<rparr>) vs \<and> ofs = BaseOffset opts) \<and>
   (CommitLog opts \<and> \<not> (OnlyMutated opts \<and> 0 <s off p) \<and>
    node_writeTo st r opts (InnerNode p cs) = Some (n', st', ofs, w, None) \<longrightarrow>
      (\<exists>cs' st1 cw. children_writeTo st opts 0 cs = Some (cs', st1, cw, None) \<and>
         n' = InnerNode (p\<lparr> off := BaseOffset opts + cw \<rparr>) cs' \<and>
         ofs = BaseOffset opts + cw)) \<and>
   (\<not> CommitLog opts \<and> node_writeTo st r opts n = Some (n', st', ofs, w, e) \<longrightarrow> n' = n) \<and>
   (node_writeTo st r opts n = Some (n', st', ofs, w, e) \<longrightarrow> erase n' = erase n)"
proof (intro conjI impI)
  assume a: "CommitLog opts \<and> \<not> (OnlyMutated opts \<and> 0 <s off p) \<and>
    node_writeTo st r opts (LeafNode p vs) = Some (n', st', ofs, w, None)"
  then have "leafNode_writeTo st r opts p vs = Some (n', st', ofs, w, None)"
    by simp
  then have "n' = LeafNode (p\<lparr> off := BaseOffset opts \<rparr>) vs \<and> ofs = BaseOffset opts"
  proof (cases rule: leaf_cases)
    case skip
    with a show ?thesis by simp
  next
    case panic
    then show ?thesis by simp
  next
    case (err x w')
    then show ?thesis by simp
  next
    case (ok w')
    with a show ?thesis by simp
  qed
  then show "n' = LeafNode (p\<lparr> off := BaseOffset opts \<rparr>) vs" and "ofs = BaseOffset opts"
    by simp_all
next
  assume a: "CommitLog opts \<and> \<not> (OnlyMutated opts \<and> 0 <s off p) \<and>
    node_writeTo st r opts (InnerNode p cs) = Some (n', st', ofs, w, None)"
  then have run: "node_writeTo st r opts (InnerNode p cs) = Some (n', st', ofs, w, None)"
    by simp
  from run show "\<exists>cs' st1 cw. children_writeTo st opts 0 cs = Some (cs', st1, cw, None) \<and>
         n' = InnerNode (p\<lparr> off := BaseOffset opts + cw \<rparr>) cs' \<and>
         ofs = BaseOffset opts + cw"
  proof (cases rule: inner_cases)
    case skip
    with a show ?thesis by simp
  next
    case (child_err cs1 cw1 x)
    then show ?thesis by simp
  next
    case (finish cs1 st1 cw1)
    from finish(3) have "n' = InnerNode (p\<lparr> off := BaseOffset opts + cw1 \<rparr>) cs1 \<and>
        ofs = BaseOffset opts + cw1"
    proof (cases rule: finish_cases)
      case panic
      then show ?thesis by simp
    next
      case (err x w')
      then show ?thesis by simp
    next
      case (ok w')
      with a show ?thesis by simp
    qed
    with finish(2) show ?thesis by blast
  qed
next
  assume "\<not> CommitLog opts \<and> node_writeTo st r opts n = Some (n', st', ofs, w, e)"
  then show "n' = n"
    using writeTo_keeps_nodes(1) by blast
next
  assume "node_writeTo st r opts n = Some (n', st', ofs, w, e)"
  then show "erase n' = erase n"
    by (rule writeTo_erase(1))
qed

theorem writeTo_commit_offsets_witness:
  "node_writeTo env0 True \<lparr> OnlyMutated = True, BaseOffset = 100, CommitLog = True \<rparr>
       (InnerNode propsI [LeafNode propsK valuesK])
     = Some (InnerNode (propsI\<lparr> off := 135 \<rparr>) [LeafNode (propsK\<lparr> off := 100 \<rparr>) valuesK],
         \<lparr> out = \<lparr> written =
                     [2, 0, 0, 0, 35, 0, 0, 0, 1, 0, 0, 0, 1, 107, 0, 0, 0, 1, 118, 0,
                      0, 0, 0, 0, 0, 0, 1, 0, 0, 0, 0, 0, 0, 0, 0, 1, 0, 0, 0, 34, 0, 0,
                      0, 1, 0, 0, 0, 1, 107, 0, 0, 0, 0, 0, 0, 0, 1, 0, 0, 0, 35, 0, 0,
                      0, 0, 0, 0, 0, 100, 0, 0, 0, 34],
                   script = [] \<rparr>, lookups = 0 \<rparr>,
         135, 73, None) \<and>
   children_writeTo env0 \<lparr> OnlyMutated = True, BaseOffset = 100, CommitLog = True \<rparr> 0
       [LeafNode propsK valuesK]
     = Some ([LeafNode (propsK\<lparr> off := 100 \<rparr>) valuesK],
         \<lparr> out = \<lparr> written =
                     [2, 0, 0, 0, 35, 0, 0, 0, 1, 0, 0, 0, 1, 107, 0, 0, 0, 1, 118, 0,
                      0, 0, 0, 0, 0, 0, 1, 0, 0, 0, 0, 0, 0, 0, 0],
                   script = [] \<rparr>, lookups = 0 \<rparr>,
         35, None) \<and>
   erase (InnerNode (propsI\<lparr> off := 135 \<rparr>) [LeafNode (propsK\<lparr> off := 100 \<rparr>) valuesK])
     = erase (InnerNode propsI [LeafNode propsK valuesK])"
proof -
  let ?opts = "\<lparr> OnlyMutated = True, BaseOffset = 100, CommitLog = True \<rparr>"
  let ?st = "\<lparr> out = \<lparr> written =
                     [2, 0, 0, 0, 35, 0, 0, 0, 1, 0, 0, 0, 1, 107, 0, 0, 0, 1, 118, 0,
                      0, 0, 0, 0, 0, 0, 1, 0, 0, 0, 0, 0, 0, 0, 0, 1, 0, 0, 0, 34, 0, 0,
                      0, 1, 0, 0, 0, 1, 107, 0, 0, 0, 0, 0, 0, 0, 1, 0, 0, 0, 35, 0, 0,
                      0, 0, 0, 0, 0, 100, 0, 0, 0, 34],
                   script = [] \<rparr>, lookups = 0 \<rparr>"
  have run: "node_writeTo env0 True ?opts (InnerNode propsI [LeafNode propsK valuesK])
     = Some (InnerNode (propsI\<lparr> off := 135 \<rparr>) [LeafNode (propsK\<lparr> off := 100 \<rparr>) valuesK],
         ?st, 135, 73, None)"
    by code_simp
  have ch: "children_writeTo env0 ?opts 0 [LeafNode propsK valuesK]
     = Some ([LeafNode (propsK\<lparr> off := 100 \<rparr>) valuesK],
         \<lparr> out = \<lparr> written =
                     [2, 0, 0, 0, 35, 0, 0, 0, 1, 0, 0, 0, 1, 107, 0, 0, 0, 1, 118, 0,
                      0, 0, 0, 0, 0, 0, 1, 0, 0, 0, 0, 0, 0, 0, 0],
                   script = [] \<rparr>, lookups = 0 \<rparr>,
         35, None)"
    by code_simp
  from writeTo_commit_offsets
    [where opts = ?opts and st = env0 and r = True
       and n = "InnerNode propsI [LeafNode propsK valuesK]"
       and n' = "InnerNode (propsI\<lparr> off := 135 \<rparr>) [LeafNode (propsK\<lparr> off := 100 \<rparr>) valuesK]"
       and st' = ?st and ofs = 135 and w = 73 and e = None]
  have "node_writeTo env0 True ?opts (InnerNode propsI [LeafNode propsK valuesK])
      = Some (InnerNode (propsI\<lparr> off := 135 \<rparr>) [LeafNode (propsK\<lparr> off := 100 \<rparr>) valuesK],
         ?st, 135, 73, None) \<longrightarrow>
     erase (InnerNode (propsI\<lparr> off := 135 \<rparr>) [LeafNode (propsK\<lparr> off := 100 \<rparr>) valuesK])
       = erase (InnerNode propsI [LeafNode propsK valuesK])"
    by blast
  with run ch show ?thesis by blast
qed

text \<open>
  C10, as stated, fails in one clause: offset 0 can be a durable position.  The claim:
  offset 0 is the unpersisted sentinel and never a valid durable position.  A write
  with \<^verbatim>\<open>CommitLog\<close> at \<^verbatim>\<open>BaseOffset\<close> 0 sets \<^verbatim>\<open>off\<close> to 0.  Here a leaf with \<^verbatim>\<open>off\<close> 64 is
  written first into an empty sink with \<^verbatim>\<open>BaseOffset\<close> 0 and \<^verbatim>\<open>CommitLog\<close>: its 35 bytes
  are at position 0 of the sink, \<^verbatim>\<open>writeTo\<close> returns the offset 0 and the leaf has
  \<^verbatim>\<open>off\<close> 0.  A second serialization with \<^verbatim>\<open>OnlyMutated\<close> then takes that leaf as not
  persisted and writes its 35 bytes again.
\<close>

theorem offset_zero_committed_then_rewritten:
  "node_writeTo env0 False \<lparr> OnlyMutated = False, BaseOffset = 0, CommitLog = True \<rparr>
       (LeafNode (propsK\<lparr> off := 64, mut := False \<rparr>) valuesK)
     = Some (LeafNode (propsK\<lparr> off := 0, mut := False \<rparr>) valuesK,
         \<lparr> out = \<lparr> written =
                     [2, 0, 0, 0, 35, 0, 0, 0, 1, 0, 0, 0, 1, 107, 0, 0, 0, 1, 118, 0,
                      0, 0, 0, 0, 0, 0, 1, 0, 0, 0, 0, 0, 0, 0, 0],
                   script = [] \<rparr>, lookups = 0 \<rparr>,
         0, 35, None) \<and>
   node_writeTo
       \<lparr> out = \<lparr> written =
                   [2, 0, 0, 0, 35, 0, 0, 0, 1, 0, 0, 0, 1, 107, 0, 0, 0, 1, 118, 0,
                    0, 0, 0, 0, 0, 0, 1, 0, 0, 0, 0, 0, 0, 0, 0],
                 script = [] \<rparr>, lookups = 0 \<rparr>
       False \<lparr> OnlyMutated = True, BaseOffset = 35, CommitLog = True \<rparr>
       (LeafNode (propsK\<lparr> off := 0, mut := False \<rparr>) valuesK)
     = Some (LeafNode (propsK\<lparr> off := 35, mut := False \<rparr>) valuesK,
         \<lparr> out = \<lparr> written =
                     [2, 0, 0, 0, 35, 0, 0, 0, 1, 0, 0, 0, 1, 107, 0, 0, 0, 1, 118, 0,
                      0, 0, 0, 0, 0, 0, 1, 0, 0, 0, 0, 0, 0, 0, 0] @
                     [2, 0, 0, 0, 35, 0, 0, 0, 1, 0, 0, 0, 1, 107, 0, 0, 0, 1, 118, 0,
                      0, 0, 0, 0, 0, 0, 1, 0, 0, 0, 0, 0, 0, 0, 0],
                   script = [] \<rparr>, lookups = 0 \<rparr>,
         35, 35, None)"
proof -
  have 1: "node_writeTo env0 False \<lparr> OnlyMutated = False, BaseOffset = 0, CommitLog = True \<rparr>
       (LeafNode (propsK\<lparr> off := 64, mut := False \<rparr>) valuesK)
     = Some (LeafNode (propsK\<lparr> off := 0, mut := False \<rparr>) valuesK,
         \<lparr> out = \<lparr> written =
                     [2, 0, 0, 0, 35, 0, 0, 0, 1, 0, 0, 0, 1, 107, 0, 0, 0, 1, 118, 0,
                      0, 0, 0, 0, 0, 0, 1, 0, 0, 0, 0, 0, 0, 0, 0],
                   script = [] \<rparr>, lookups = 0 \<rparr>,
         0, 35, None)"
    by code_simp
  have 2: "node_writeTo
       \<lparr> out = \<lparr> written =
                   [2, 0, 0, 0, 35, 0, 0, 0, 1, 0, 0, 0, 1, 107, 0, 0, 0, 1, 118, 0,
                    0, 0, 0, 0, 0, 0, 1, 0, 0, 0, 0, 0, 0, 0, 0],
                 script = [] \<rparr>, lookups = 0 \<rparr>
       False \<lparr> OnlyMutated = True, BaseOffset = 35, CommitLog = True \<rparr>
       (LeafNode (propsK\<lparr> off := 0, mut := False \<rparr>) valuesK)
     = Some (LeafNode (propsK\<lparr> off := 35, mut := False \<rparr>) valuesK,
         \<lparr> out = \<lparr> written =
                     [2, 0, 0, 0, 35, 0, 0, 0, 1, 0, 0, 0, 1, 107, 0, 0, 0, 1, 118, 0,
                      0, 0, 0, 0, 0, 0, 1, 0, 0, 0, 0, 0, 0, 0, 0] @
                     [2, 0, 0, 0, 35, 0, 0, 0, 1, 0, 0, 0, 1, 107, 0, 0, 0, 1, 118, 0,
                      0, 0, 0, 0, 0, 0, 1, 0, 0, 0, 0, 0, 0, 0, 0],
                   script = [] \<rparr>, lookups = 0 \<rparr>,
         35, 35, None)"
    by code_simp
  from 1 2 show ?thesis by blast
qed

text \<open>
  C10, amended.  The test for "already persisted" is \<^verbatim>\<open>off > 0\<close>, read signed, so a
  node with \<^verbatim>\<open>off\<close> 0 is taken as not persisted (also one that a write has put at
  offset 0).  Under \<^verbatim>\<open>OnlyMutated\<close> an inner node or a leaf with \<^verbatim>\<open>off > 0\<close> returns its
  \<^verbatim>\<open>off\<close> and 0 bytes, and nothing changes.  With \<^verbatim>\<open>off\<close> 0 or negative the node is
  written: a leaf behaves as without \<^verbatim>\<open>OnlyMutated\<close>, and on a sink taking every write
  whole a leaf whose buffer fits, and an inner node whose children are written without
  error and whose buffer fits, return no error and have put their record at the end of
  the sink.  A reference under \<^verbatim>\<open>OnlyMutated\<close> whose \<^verbatim>\<open>node\<close> is \<^verbatim>\<open>nil\<close>, or whose \<^verbatim>\<open>node\<close>
  has an offset \<^verbatim>\<open>> 0\<close>, returns its own \<^verbatim>\<open>off\<close> and 0 bytes; the sink and the count of
  node store lookups are as before, whatever the store holds.  Otherwise the node
  store is asked: the count of lookups has grown when the call returns.
\<close>

theorem OnlyMutated_skip_test:
  "(OnlyMutated opts \<and> 0 < sint (off p) \<longrightarrow>
      node_writeTo st r opts (InnerNode p cs) = Some (InnerNode p cs, st, off p, 0, None) \<and>
      node_writeTo st r opts (LeafNode p vs) = Some (LeafNode p vs, st, off p, 0, None)) \<and>
   (sint (off p) \<le> 0 \<longrightarrow>
      node_writeTo st r opts (LeafNode p vs)
        = node_writeTo st r (opts\<lparr> OnlyMutated := False \<rparr>) (LeafNode p vs)) \<and>
   (sint (off p) \<le> 0 \<and> script (out st) = [] \<and> fits (size p) (leafNode_buf r p vs) \<longrightarrow>
      node_writeTo st r opts (LeafNode p vs)
        = Some (LeafNode (if CommitLog opts then p\<lparr> off := BaseOffset opts \<rparr> else p) vs,
                st\<lparr> out := (out st)\<lparr> written := written (out st) @ leafNode_buf r p vs \<rparr> \<rparr>,
                BaseOffset opts,
                (if r then size p + 4 else size p),
                None)) \<and>
   (sint (off p) \<le> 0 \<and> script (out st) = [] \<and>
    children_writeTo st opts 0 cs = Some (cs', stc, cw, None) \<and>
    fits (size p) (innerNode_buf r p cs') \<longrightarrow>
      node_writeTo st r opts (InnerNode p cs)
        = Some (InnerNode (if CommitLog opts then p\<lparr> off := BaseOffset opts + cw \<rparr> else p) cs',
                stc\<lparr> out := (out stc)\<lparr> written := written (out stc) @ innerNode_buf r p cs' \<rparr> \<rparr>,
                BaseOffset opts + cw,
                (if r then cw + size p + 4 else cw + size p),
                None)) \<and>
   (sint (off p) \<le> 0 \<and> script (out st) = [] \<and>
    node_writeTo st r opts (InnerNode p cs) = Some (n', st', ofs, w, None) \<longrightarrow>
      (\<exists>ds sta cwa. children_writeTo st opts 0 cs = Some (ds, sta, cwa, None) \<and>
         written (out st') = written (out sta) @ innerNode_buf r p ds)) \<and>
   (OnlyMutated opts \<and> (nd = None \<or> (\<exists>m. nd = Some m \<and> 0 < sint (offset m))) \<longrightarrow>
      node_writeTo st r opts (NodeRef p nd res) = Some (NodeRef p nd res, st, off p, 0, None)) \<and>
   (OnlyMutated opts \<and> nd = Some m \<and> sint (offset m) \<le> 0 \<and>
    node_writeTo st r opts (NodeRef p nd res) = Some (n', st', ofs, w, e) \<longrightarrow>
      lookups st < lookups st')"
proof (intro conjI impI)
  assume a: "OnlyMutated opts \<and> 0 < sint (off p)"
  then show "node_writeTo st r opts (InnerNode p cs) = Some (InnerNode p cs, st, off p, 0, None)"
    by (simp add: word_sless_alt)
  from a show "node_writeTo st r opts (LeafNode p vs) = Some (LeafNode p vs, st, off p, 0, None)"
    by (simp add: leafNode_writeTo_def word_sless_alt)
next
  assume "sint (off p) \<le> 0"
  then have "\<not> 0 <s off p"
    by (simp add: word_sless_alt)
  then show "node_writeTo st r opts (LeafNode p vs)
        = node_writeTo st r (opts\<lparr> OnlyMutated := False \<rparr>) (LeafNode p vs)"
    by (auto simp: leafNode_writeTo_def split: option.splits)
next
  assume a: "sint (off p) \<le> 0 \<and> script (out st) = [] \<and> fits (size p) (leafNode_buf r p vs)"
  then have "sint (off p) \<le> 0"
    by blast
  then have go: "\<not> (OnlyMutated opts \<and> 0 <s off p)"
    by (simp add: word_sless_alt)
  from a have whole: "script (out st) = []" and f: "fits (size p) (leafNode_buf r p vs)"
    by blast+
  from leafNode_writeTo_whole [OF whole go f]
  show "node_writeTo st r opts (LeafNode p vs)
        = Some (LeafNode (if CommitLog opts then p\<lparr> off := BaseOffset opts \<rparr> else p) vs,
                st\<lparr> out := (out st)\<lparr> written := written (out st) @ leafNode_buf r p vs \<rparr> \<rparr>,
                BaseOffset opts,
                (if r then size p + 4 else size p),
                None)"
    by simp
next
  assume a: "sint (off p) \<le> 0 \<and> script (out st) = [] \<and>
    children_writeTo st opts 0 cs = Some (cs', stc, cw, None) \<and>
    fits (size p) (innerNode_buf r p cs')"
  then have "sint (off p) \<le> 0"
    by blast
  then have go: "\<not> (OnlyMutated opts \<and> 0 <s off p)"
    by (simp add: word_sless_alt)
  from a have whole: "script (out st) = []"
    and ch: "children_writeTo st opts 0 cs = Some (cs', stc, cw, None)"
    and f: "fits (size p) (innerNode_buf r p cs')"
    by blast+
  show "node_writeTo st r opts (InnerNode p cs)
        = Some (InnerNode (if CommitLog opts then p\<lparr> off := BaseOffset opts + cw \<rparr> else p) cs',
                stc\<lparr> out := (out stc)\<lparr> written := written (out stc) @ innerNode_buf r p cs' \<rparr> \<rparr>,
                BaseOffset opts + cw,
                (if r then cw + size p + 4 else cw + size p),
                None)"
    by (rule innerNode_writeTo_whole [OF go whole ch f])
next
  assume a: "sint (off p) \<le> 0 \<and> script (out st) = [] \<and>
    node_writeTo st r opts (InnerNode p cs) = Some (n', st', ofs, w, None)"
  then have "sint (off p) \<le> 0"
    by blast
  then have go: "\<not> (OnlyMutated opts \<and> 0 <s off p)"
    by (simp add: word_sless_alt)
  from a have whole: "script (out st) = []"
    and run: "node_writeTo st r opts (InnerNode p cs) = Some (n', st', ofs, w, None)"
    by blast+
  from innerNode_writeTo_record [OF whole run go]
  show "\<exists>ds sta cwa. children_writeTo st opts 0 cs = Some (ds, sta, cwa, None) \<and>
         written (out st') = written (out sta) @ innerNode_buf r p ds"
    by blast
next
  assume a: "OnlyMutated opts \<and> (nd = None \<or> (\<exists>m. nd = Some m \<and> 0 < sint (offset m)))"
  then have "case nd of None \<Rightarrow> True | Some m \<Rightarrow> 0 <s offset m"
    by (auto simp: word_sless_alt)
  with a show "node_writeTo st r opts (NodeRef p nd res) = Some (NodeRef p nd res, st, off p, 0, None)"
    by simp
next
  assume a: "OnlyMutated opts \<and> nd = Some m \<and> sint (offset m) \<le> 0 \<and>
    node_writeTo st r opts (NodeRef p nd res) = Some (n', st', ofs, w, e)"
  then have "nd = Some m" and "sint (offset m) \<le> 0"
    by blast+
  then have noskip: "\<not> (case nd of None \<Rightarrow> True | Some m \<Rightarrow> 0 <s offset m)"
    by (simp add: word_sless_alt)
  from a have "node_writeTo st r opts (NodeRef p nd res) = Some (n', st', ofs, w, e)"
    by blast
  then show "lookups st < lookups st'"
  proof (cases rule: ref_cases)
    case skip
    with noskip show ?thesis by simp
  next
    case (fail x)
    then show ?thesis by simp
  next
    case (load m1 m')
    from writeTo_lookups_mono(1) [OF load(3)] show ?thesis by simp
  qed
qed


theorem OnlyMutated_skip_test_witness:
  "sint (off propsI) \<le> 0 \<and> script (out env0) = [] \<and>
   children_writeTo env0 \<lparr> OnlyMutated = True, BaseOffset = 100, CommitLog = True \<rparr> 0 [leafK]
     = Some ([LeafNode (propsK\<lparr> off := 100 \<rparr>) valuesK],
         \<lparr> out = \<lparr> written =
                     [2, 0, 0, 0, 35, 0, 0, 0, 1, 0, 0, 0, 1, 107, 0, 0, 0, 1, 118, 0,
                      0, 0, 0, 0, 0, 0, 1, 0, 0, 0, 0, 0, 0, 0, 0],
                   script = [] \<rparr>, lookups = 0 \<rparr>,
         35, None) \<and>
   fits (size propsI) (innerNode_buf True propsI [LeafNode (propsK\<lparr> off := 100 \<rparr>) valuesK]) \<and>
   node_writeTo env0 True \<lparr> OnlyMutated = True, BaseOffset = 100, CommitLog = True \<rparr>
       (InnerNode propsI [leafK])
     = Some (InnerNode (propsI\<lparr> off := 135 \<rparr>) [LeafNode (propsK\<lparr> off := 100 \<rparr>) valuesK],
         \<lparr> out = \<lparr> written =
                     [2, 0, 0, 0, 35, 0, 0, 0, 1, 0, 0, 0, 1, 107, 0, 0, 0, 1, 118, 0,
                      0, 0, 0, 0, 0, 0, 1, 0, 0, 0, 0, 0, 0, 0, 0, 1, 0, 0, 0, 34, 0, 0,
                      0, 1, 0, 0, 0, 1, 107, 0, 0, 0, 0, 0, 0, 0, 1, 0, 0, 0, 35, 0, 0,
                      0, 0, 0, 0, 0, 100, 0, 0, 0, 34],
                   script = [] \<rparr>, lookups = 0 \<rparr>,
         135, 73, None) \<and>
   node_writeTo env0 False \<lparr> OnlyMutated = True, BaseOffset = 100, CommitLog = True \<rparr>
       (LeafNode (propsK\<lparr> off := 64, mut := False \<rparr>) valuesK)
     = Some (LeafNode (propsK\<lparr> off := 64, mut := False \<rparr>) valuesK, env0, 64, 0, None) \<and>
   node_writeTo env0 False \<lparr> OnlyMutated = True, BaseOffset = 100, CommitLog = True \<rparr>
       (NodeRef (propsK\<lparr> off := 64, mut := False \<rparr>) None (Inr leafK))
     = Some (NodeRef (propsK\<lparr> off := 64, mut := False \<rparr>) None (Inr leafK), env0, 64, 0, None) \<and>
   node_writeTo env0 False \<lparr> OnlyMutated = True, BaseOffset = 100, CommitLog = True \<rparr>
       (NodeRef (propsK\<lparr> off := 64 \<rparr>) (Some leafK) (Inr leafK))
     = Some (NodeRef (propsK\<lparr> off := 64 \<rparr>) (Some leafK)
               (Inr (LeafNode (propsK\<lparr> off := 100 \<rparr>) valuesK)),
         \<lparr> out = \<lparr> written =
                     [2, 0, 0, 0, 35, 0, 0, 0, 1, 0, 0, 0, 1, 107, 0, 0, 0, 1, 118, 0,
                      0, 0, 0, 0, 0, 0, 1, 0, 0, 0, 0, 0, 0, 0, 0],
                   script = [] \<rparr>, lookups = 1 \<rparr>,
         100, 35, None) \<and>
   lookups env0 < 1"
proof -
  let ?opts = "\<lparr> OnlyMutated = True, BaseOffset = 100, CommitLog = True \<rparr>"
  let ?pP = "propsK\<lparr> off := 64, mut := False \<rparr>"
  let ?leaf' = "LeafNode (propsK\<lparr> off := 100 \<rparr>) valuesK"
  let ?stL = "\<lparr> out = \<lparr> written =
                     [2, 0, 0, 0, 35, 0, 0, 0, 1, 0, 0, 0, 1, 107, 0, 0, 0, 1, 118, 0,
                      0, 0, 0, 0, 0, 0, 1, 0, 0, 0, 0, 0, 0, 0, 0],
                   script = [] \<rparr>, lookups = 0 \<rparr>"
  let ?st = "\<lparr> out = \<lparr> written =
                     [2, 0, 0, 0, 35, 0, 0, 0, 1, 0, 0, 0, 1, 107, 0, 0, 0, 1, 118, 0,
                      0, 0, 0, 0, 0, 0, 1, 0, 0, 0, 0, 0, 0, 0, 0],
                   script = [] \<rparr>, lookups = 1 \<rparr>"
  have low: "sint (off propsI) \<le> 0"
    by (simp add: propsI_def)
  have whole: "script (out env0) = []"
    by (simp add: env0_def)
  have ch: "children_writeTo env0 ?opts 0 [leafK] = Some ([?leaf'], ?stL, 35, None)"
    by code_simp
  have buf: "innerNode_buf True propsI [?leaf']
      = [1, 0, 0, 0, 34, 0, 0, 0, 1, 0, 0, 0, 1, 107, 0, 0, 0, 0, 0, 0, 0, 1, 0, 0, 0, 35,
         0, 0, 0, 0, 0, 0, 0, 100, 0, 0, 0, 34]"
    by code_simp
  have f: "fits (size propsI) (innerNode_buf True propsI [?leaf'])"
    unfolding buf by (simp add: fits_def propsI_def)
  from OnlyMutated_skip_test [where opts = ?opts and p = propsI and st = env0 and r = True
      and cs = "[leafK]" and cs' = "[?leaf']" and stc = ?stL and cw = 35]
  have "sint (off propsI) \<le> 0 \<and> script (out env0) = [] \<and>
      children_writeTo env0 ?opts 0 [leafK] = Some ([?leaf'], ?stL, 35, None) \<and>
      fits (size propsI) (innerNode_buf True propsI [?leaf']) \<longrightarrow>
      node_writeTo env0 True ?opts (InnerNode propsI [leafK])
        = Some (InnerNode (if CommitLog ?opts then propsI\<lparr> off := BaseOffset ?opts + 35 \<rparr> else propsI) [?leaf'],
                ?stL\<lparr> out := (out ?stL)\<lparr> written := written (out ?stL) @ innerNode_buf True propsI [?leaf'] \<rparr> \<rparr>,
                BaseOffset ?opts + 35,
                (if True then 35 + size propsI + 4 else 35 + size propsI),
                None)"
    by blast
  with low whole ch f
  have "node_writeTo env0 True ?opts (InnerNode propsI [leafK])
        = Some (InnerNode (if CommitLog ?opts then propsI\<lparr> off := BaseOffset ?opts + 35 \<rparr> else propsI) [?leaf'],
                ?stL\<lparr> out := (out ?stL)\<lparr> written := written (out ?stL) @ innerNode_buf True propsI [?leaf'] \<rparr> \<rparr>,
                BaseOffset ?opts + 35,
                (if True then 35 + size propsI + 4 else 35 + size propsI),
                None)"
    by blast
  then have inner: "node_writeTo env0 True ?opts (InnerNode propsI [leafK])
     = Some (InnerNode (propsI\<lparr> off := 135 \<rparr>) [?leaf'],
         \<lparr> out = \<lparr> written =
                     [2, 0, 0, 0, 35, 0, 0, 0, 1, 0, 0, 0, 1, 107, 0, 0, 0, 1, 118, 0,
                      0, 0, 0, 0, 0, 0, 1, 0, 0, 0, 0, 0, 0, 0, 0, 1, 0, 0, 0, 34, 0, 0,
                      0, 1, 0, 0, 0, 1, 107, 0, 0, 0, 0, 0, 0, 0, 1, 0, 0, 0, 35, 0, 0,
                      0, 0, 0, 0, 0, 100, 0, 0, 0, 34],
                   script = [] \<rparr>, lookups = 0 \<rparr>,
         135, 73, None)"
    unfolding buf by (simp add: propsI_def)
  have p: "OnlyMutated ?opts \<and> 0 < sint (off ?pP)"
    by (simp add: propsK_def)
  from OnlyMutated_skip_test [where opts = ?opts and p = ?pP and st = env0 and r = False
      and vs = valuesK] p
  have 1: "node_writeTo env0 False ?opts (LeafNode ?pP valuesK)
     = Some (LeafNode ?pP valuesK, env0, 64, 0, None)"
    by (simp add: propsK_def)
  from OnlyMutated_skip_test [where opts = ?opts and p = ?pP and st = env0 and r = False
      and nd = None and res = "Inr leafK"]
  have 2: "node_writeTo env0 False ?opts (NodeRef ?pP None (Inr leafK))
     = Some (NodeRef ?pP None (Inr leafK), env0, 64, 0, None)"
    by (simp add: propsK_def)
  have 3: "node_writeTo env0 False ?opts (NodeRef (propsK\<lparr> off := 64 \<rparr>) (Some leafK) (Inr leafK))
     = Some (NodeRef (propsK\<lparr> off := 64 \<rparr>) (Some leafK) (Inr ?leaf'), ?st, 100, 35, None)"
    by code_simp
  have q: "OnlyMutated ?opts \<and> Some leafK = Some leafK \<and> sint (offset leafK) \<le> 0"
    by (simp add: offset_def leafK_def propsK_def)
  from OnlyMutated_skip_test [where opts = ?opts and p = "propsK\<lparr> off := 64 \<rparr>" and st = env0
      and r = False and nd = "Some leafK" and m = leafK and res = "Inr leafK"
      and n' = "NodeRef (propsK\<lparr> off := 64 \<rparr>) (Some leafK) (Inr ?leaf')"
      and st' = ?st and ofs = 100 and w = 35 and e = None] q 3
  have 4: "lookups env0 < lookups ?st"
    by blast
  from low whole ch f inner 1 2 3 4 show ?thesis by simp
qed




subsection \<open>The child offsets that a parent records\<close>

text \<open>
  \<^verbatim>\<open>writeNodeRefTo\<close> records \<^verbatim>\<open>c.offset()\<close>.  After a write with \<^verbatim>\<open>CommitLog\<close> that is
  the offset that the \<^verbatim>\<open>writeTo\<close> of a leaf or inner child has returned; a child that
  the loop skips is left as it is, with the offset it had.
\<close>

lemma written_child_offset_with_CommitLog:
  assumes commit: "CommitLog opts"
    and run: "node_writeTo st r opts c = Some (c', st', ofs, w, None)"
    and kind: "(\<exists>p vs. c = LeafNode p vs \<and> \<not> (OnlyMutated opts \<and> 0 <s off p)) \<or>
               (\<exists>p cs. c = InnerNode p cs \<and> \<not> (OnlyMutated opts \<and> 0 <s off p))"
  shows "offset c' = ofs"
  using kind
proof (elim disjE exE conjE)
  fix p vs
  assume c: "c = LeafNode p vs" and go: "\<not> (OnlyMutated opts \<and> 0 <s off p)"
  from run c have "leafNode_writeTo st r opts p vs = Some (c', st', ofs, w, None)"
    by simp
  then show ?thesis
  proof (cases rule: leaf_cases)
    case skip
    with go show ?thesis by simp
  next
    case panic
    then show ?thesis by simp
  next
    case (err x w')
    then show ?thesis by simp
  next
    case (ok w')
    with commit show ?thesis by (simp add: offset_def)
  qed
next
  fix p cs
  assume c: "c = InnerNode p cs" and go: "\<not> (OnlyMutated opts \<and> 0 <s off p)"
  from run c have "node_writeTo st r opts (InnerNode p cs) = Some (c', st', ofs, w, None)"
    by simp
  then show ?thesis
  proof (cases rule: inner_cases)
    case skip
    with go show ?thesis by simp
  next
    case (child_err cs1 cw1 x)
    then show ?thesis by simp
  next
    case (finish cs1 st1 cw1)
    from finish(3) show ?thesis
    proof (cases rule: finish_cases)
      case panic
      then show ?thesis by simp
    next
      case (err x w')
      then show ?thesis by simp
    next
      case (ok w')
      with commit show ?thesis by (simp add: offset_def)
    qed
  qed
qed

lemma skipped_child_keeps_offset:
  assumes "OnlyMutated opts" and "\<not> mutated c"
    and "children_writeTo st opts cw (c # cs) = Some (cs', st', cw', e)"
  shows "hd cs' = c"
  using assms(3)
proof (cases rule: children_cases)
  case (skip ds)
  then show ?thesis by simp
next
  case (err c1 ofs w x)
  with assms(1,2) show ?thesis by simp
next
  case (go c1 st1 ofs w ds)
  with assms(1,2) show ?thesis by simp
qed

text \<open>
  C3.  The claim: the \<^verbatim>\<open>childOffset\<close> that the parent records for a child written in
  this call is the offset at which the child was written.  \<^verbatim>\<open>innerNode.writeTo\<close> keeps
  the offsets returned by the children in the slice \<^verbatim>\<open>offsets\<close> and never reads it:
  \<^verbatim>\<open>writeNodeRefTo\<close> records \<^verbatim>\<open>c.offset()\<close>, the child's \<^verbatim>\<open>off\<close> field, which is the
  place of the child only after a write with \<^verbatim>\<open>CommitLog\<close>.  Here \<^verbatim>\<open>CommitLog\<close> is false
  and \<^verbatim>\<open>BaseOffset\<close> is 100: the leaf is written first and its \<^verbatim>\<open>writeTo\<close> returns the
  offset 100, and the root record that follows holds 0 in the eight bytes of
  \<^verbatim>\<open>childOffset\<close>, the \<^verbatim>\<open>off\<close> field of the leaf.
\<close>

theorem innerNode_records_stale_child_offset:
  "node_writeTo env0 False \<lparr> OnlyMutated = False, BaseOffset = 100, CommitLog = False \<rparr> leafK
     = Some (leafK,
         \<lparr> out = \<lparr> written =
                     [2, 0, 0, 0, 35, 0, 0, 0, 1, 0, 0, 0, 1, 107, 0, 0, 0, 1, 118, 0,
                      0, 0, 0, 0, 0, 0, 1, 0, 0, 0, 0, 0, 0, 0, 0],
                   script = [] \<rparr>, lookups = 0 \<rparr>,
         100, 35, None) \<and>
   node_writeTo env0 True \<lparr> OnlyMutated = False, BaseOffset = 100, CommitLog = False \<rparr> innerK
     = Some (innerK,
         \<lparr> out = \<lparr> written =
                     [2, 0, 0, 0, 35, 0, 0, 0, 1, 0, 0, 0, 1, 107, 0, 0, 0, 1, 118, 0,
                      0, 0, 0, 0, 0, 0, 1, 0, 0, 0, 0, 0, 0, 0, 0] @
                     [1, 0, 0, 0, 34, 0, 0, 0, 1] @
                     [0, 0, 0, 1, 107] @ [0, 0, 0, 0, 0, 0, 0, 1] @ [0, 0, 0, 35] @
                     [0, 0, 0, 0, 0, 0, 0, 0] @
                     [0, 0, 0, 34],
                   script = [] \<rparr>, lookups = 0 \<rparr>,
         135, 73, None) \<and>
   be64 100 = [0, 0, 0, 0, 0, 0, 0, 100]"
proof -
  have 1: "node_writeTo env0 False \<lparr> OnlyMutated = False, BaseOffset = 100, CommitLog = False \<rparr> leafK
     = Some (leafK,
         \<lparr> out = \<lparr> written =
                     [2, 0, 0, 0, 35, 0, 0, 0, 1, 0, 0, 0, 1, 107, 0, 0, 0, 1, 118, 0,
                      0, 0, 0, 0, 0, 0, 1, 0, 0, 0, 0, 0, 0, 0, 0],
                   script = [] \<rparr>, lookups = 0 \<rparr>,
         100, 35, None)"
    by code_simp
  have 2: "node_writeTo env0 True \<lparr> OnlyMutated = False, BaseOffset = 100, CommitLog = False \<rparr> innerK
     = Some (innerK,
         \<lparr> out = \<lparr> written =
                     [2, 0, 0, 0, 35, 0, 0, 0, 1, 0, 0, 0, 1, 107, 0, 0, 0, 1, 118, 0,
                      0, 0, 0, 0, 0, 0, 1, 0, 0, 0, 0, 0, 0, 0, 0, 1, 0, 0, 0, 34, 0, 0,
                      0, 1, 0, 0, 0, 1, 107, 0, 0, 0, 0, 0, 0, 0, 1, 0, 0, 0, 35, 0, 0,
                      0, 0, 0, 0, 0, 0, 0, 0, 0, 34],
                   script = [] \<rparr>, lookups = 0 \<rparr>,
         135, 73, None)"
    by code_simp
  have 3: "be64 100 = [0, 0, 0, 0, 0, 0, 0, 100]"
    by code_simp
  from 1 2 3 show ?thesis by simp
qed

end
